theory Spec2Isabelle
  imports Complex_Main "HOL-Library.Sublist"
begin

section \<open>Strings\<close>

text \<open>
  A Python \<open>str\<close> is a sequence of code points. The model writes it as a \<open>string\<close> and reads
  each \<open>char\<close> as one code point below 256, so \<open>CHR 0xF6\<close> is the letter o with diaeresis
  and \<open>CHR 0xA0\<close> the no-break space. On this range the white space of \<open>str.strip\<close> and of
  \<open>\s\<close> is the set below, and the decimal digits of \<open>\d\<close> and \<open>int\<close> are \<open>0\<close> to \<open>9\<close>.
\<close>

definition py_isspace :: "char \<Rightarrow> bool" where
  "py_isspace c = (c \<in> set [CHR 0x09, CHR 0x0A, CHR 0x0B, CHR 0x0C, CHR 0x0D,
                             CHR 0x1C, CHR 0x1D, CHR 0x1E, CHR 0x1F, CHR 0x20,
                             CHR 0x85, CHR 0xA0])"

definition py_isdigit :: "char \<Rightarrow> bool" where
  "py_isdigit c = (c \<in> set ''0123456789'')"

text \<open>\<open>s.strip()\<close>: white space removed at both ends.\<close>

definition lstrip :: "string \<Rightarrow> string" where
  "lstrip s = dropWhile py_isspace s"

definition rstrip :: "string \<Rightarrow> string" where
  "rstrip s = rev (dropWhile py_isspace (rev s))"

definition strip :: "string \<Rightarrow> string" where
  "strip s = rstrip (lstrip s)"

text \<open>\<open>s.startswith(p)\<close>.\<close>

definition startswith :: "string \<Rightarrow> string \<Rightarrow> bool" where
  "startswith s p = (take (length p) s = p)"

text \<open>\<open>s.split(sep)\<close> for a separator of one character: empty pieces are kept.\<close>

fun split_on :: "char \<Rightarrow> string \<Rightarrow> string list" where
  "split_on sep [] = [[]]"
| "split_on sep (c # cs) =
     (if c = sep then [] # split_on sep cs
      else (case split_on sep cs of
              [] \<Rightarrow> [[c]]
            | p # ps \<Rightarrow> (c # p) # ps))"

text \<open>\<open>sep.join(parts)\<close>.\<close>

fun join :: "string \<Rightarrow> string list \<Rightarrow> string" where
  "join sep [] = []"
| "join sep [p] = p"
| "join sep (p # q # ps) = p @ sep @ join sep (q # ps)"

text \<open>
  \<open>str(n)\<close> and \<open>int(s)\<close> for a natural number in decimal. \<open>int\<close> reads a string of any
  length; the bound that CPython puts on the number of digits is a setting of the interpreter
  and is not modelled.
\<close>

definition digit_char :: "nat \<Rightarrow> char" where
  "digit_char d = char_of (48 + d)"

definition digit_value :: "char \<Rightarrow> nat" where
  "digit_value c = of_char c - 48"

fun str_nat :: "nat \<Rightarrow> string" where
  "str_nat n = (if n < 10 then [digit_char n] else str_nat (n div 10) @ [digit_char (n mod 10)])"

declare str_nat.simps [simp del]

definition int_of_digits :: "string \<Rightarrow> nat" where
  "int_of_digits s = foldl (\<lambda>n c. 10 * n + digit_value c) 0 s"

section \<open>The regular expressions of the scraper\<close>

text \<open>
  Each pattern of the source is modelled by the function that computes what \<open>re.search\<close> or
  \<open>re.sub\<close> returns for it: the leftmost match, each repetition greedy.
\<close>

text \<open>
  \<open>re.search(r"(\d[\d.]*)", text)\<close>, then \<open>int(m.group(1).replace(".", ""))\<close>: the match
  starts at the first digit and runs over digits and dots.
\<close>

definition search_count :: "string \<Rightarrow> string option" where
  "search_count text =
     (case dropWhile (\<lambda>c. \<not> py_isdigit c) text of
        [] \<Rightarrow> None
      | r \<Rightarrow> Some (takeWhile (\<lambda>c. py_isdigit c \<or> c = CHR ''.'') r))"

definition replace_dots :: "string \<Rightarrow> string" where
  "replace_dots s = filter (\<lambda>c. c \<noteq> CHR ''.'') s"

text \<open>
  \<open>re.search(r"(978[\d-]{10,})", text)\<close>: the pattern matches at a position when the text there
  reads \<open>978\<close> followed by at least ten digits or hyphens, and the match takes the whole run.
\<close>

definition isbn_char :: "char \<Rightarrow> bool" where
  "isbn_char c = (py_isdigit c \<or> c = CHR ''-'')"

definition isbn_at :: "string \<Rightarrow> string option" where
  "isbn_at s =
     (if startswith s ''978'' \<and> 10 \<le> length (takeWhile isbn_char (drop 3 s))
      then Some (''978'' @ takeWhile isbn_char (drop 3 s))
      else None)"

fun search_isbn :: "string \<Rightarrow> string option" where
  "search_isbn [] = None"
| "search_isbn (c # cs) =
     (case isbn_at (c # cs) of
        Some m \<Rightarrow> Some m
      | None \<Rightarrow> search_isbn cs)"

text \<open>
  \<open>re.sub(r"^LABEL\s*", "", text)\<close>: without the MULTILINE flag \<open>^\<close> matches at the start of
  the text only, so at most the label at the start and the white space after it are removed.
\<close>

definition sub_label :: "string \<Rightarrow> string \<Rightarrow> string" where
  "sub_label label text =
     (if startswith text label then dropWhile py_isspace (drop (length label) text)
      else text)"

text \<open>
  \<open>re.sub(r"\?.*$", "", href)\<close>: \<open>.\<close> matches every character but the line feed, and \<open>$\<close>
  matches at the end of the text or before a line feed that ends it. So the pattern matches at
  a question mark when no line feed follows it, or only one that ends the text; that line feed
  stays.
\<close>

definition line_feed :: char where
  "line_feed = CHR 0x0A"

fun sub_query :: "string \<Rightarrow> string" where
  "sub_query [] = []"
| "sub_query (c # cs) =
     (if c = CHR ''?'' \<and> dropWhile (\<lambda>x. x \<noteq> line_feed) cs \<in> set [[], [line_feed]]
      then dropWhile (\<lambda>x. x \<noteq> line_feed) cs
      else c # sub_query cs)"

section \<open>The parsed page\<close>

text \<open>
  The tree that \<open>BeautifulSoup(text, "html.parser")\<close> returns. A tag carries its name and the
  attributes the scraper reads (\<open>id\<close>, the list of its classes, \<open>href\<close>); a string of the page
  is a \<open>NavigableString\<close>, or a \<open>Comment\<close>, which stands for the strings that \<open>get_text\<close>
  leaves out (comments, and what stands inside \<open>script\<close> and \<open>style\<close>). A soup is the list
  of the top-level nodes of the document.
\<close>

record attrs =
  tag_name :: string
  tag_id :: "string option"
  tag_classes :: "string list"
  tag_href :: "string option"

datatype node =
    Tag attrs "node list"
  | NavigableString string
  | Comment string

type_synonym soup = "node list"

text \<open>
  An element as the scraper holds it: the tag together with the attributes of its ancestors,
  the nearest first. A CSS selector is matched against the whole document, so a query from an
  element still looks at the ancestors of that element.
\<close>

type_synonym element = "attrs list \<times> attrs \<times> node list"

text \<open>
  The selectors of the source: compound selectors \<open>name#id.class.class\<close> joined by the
  descendant combinator (a space). The last compound is the one the element itself matches.
\<close>

record compound =
  sel_name :: string
  sel_id :: "string option"
  sel_classes :: "string list"

type_synonym selector = "compound list"

definition matches_compound :: "compound \<Rightarrow> attrs \<Rightarrow> bool" where
  "matches_compound c a =
     (tag_name a = sel_name c
      \<and> (case sel_id c of None \<Rightarrow> True | Some i \<Rightarrow> tag_id a = Some i)
      \<and> list_all (\<lambda>k. k \<in> set (tag_classes a)) (sel_classes c))"

text \<open>The compounds left of the element's own, innermost first, against the ancestors.\<close>

fun matches_ancestors :: "compound list \<Rightarrow> attrs list \<Rightarrow> bool" where
  "matches_ancestors [] anc = True"
| "matches_ancestors (c # cs) [] = False"
| "matches_ancestors (c # cs) (a # anc) =
     (if matches_compound c a then matches_ancestors cs anc
      else matches_ancestors (c # cs) anc)"

definition matches :: "selector \<Rightarrow> attrs list \<Rightarrow> attrs \<Rightarrow> bool" where
  "matches sel anc a =
     (case rev sel of
        [] \<Rightarrow> False
      | c # cs \<Rightarrow> matches_compound c a \<and> matches_ancestors cs anc)"

text \<open>\<open>select\<close>: the matching descendants, in document order.\<close>

fun select_node :: "selector \<Rightarrow> attrs list \<Rightarrow> node \<Rightarrow> element list"
  and select_nodes :: "selector \<Rightarrow> attrs list \<Rightarrow> node list \<Rightarrow> element list" where
  "select_node sel anc (Tag a kids) =
     (if matches sel anc a then [(anc, a, kids)] else []) @ select_nodes sel (a # anc) kids"
| "select_node sel anc (NavigableString s) = []"
| "select_node sel anc (Comment s) = []"
| "select_nodes sel anc [] = []"
| "select_nodes sel anc (x # xs) = select_node sel anc x @ select_nodes sel anc xs"

definition select_one_of :: "element list \<Rightarrow> element option" where
  "select_one_of es = (case es of [] \<Rightarrow> None | e # _ \<Rightarrow> Some e)"

text \<open>\<open>soup.select(sel)\<close> and \<open>soup.select_one(sel)\<close> on the document.\<close>

definition select :: "selector \<Rightarrow> soup \<Rightarrow> element list" where
  "select sel sp = select_nodes sel [] sp"

definition select_one :: "selector \<Rightarrow> soup \<Rightarrow> element option" where
  "select_one sel sp = select_one_of (select sel sp)"

text \<open>\<open>el.select(sel)\<close> and \<open>el.select_one(sel)\<close> on an element: its descendants only.\<close>

definition el_select :: "selector \<Rightarrow> element \<Rightarrow> element list" where
  "el_select sel e = (case e of (anc, a, kids) \<Rightarrow> select_nodes sel (a # anc) kids)"

definition el_select_one :: "selector \<Rightarrow> element \<Rightarrow> element option" where
  "el_select_one sel e = select_one_of (el_select sel e)"

text \<open>
  \<open>el.get_text(separator, strip=True)\<close>: the strings below the element in document order,
  each stripped, the empty ones dropped, joined by the separator.
\<close>

fun strings_node :: "node \<Rightarrow> string list"
  and strings_nodes :: "node list \<Rightarrow> string list" where
  "strings_node (Tag a kids) = strings_nodes kids"
| "strings_node (NavigableString s) = [s]"
| "strings_node (Comment s) = []"
| "strings_nodes [] = []"
| "strings_nodes (x # xs) = strings_node x @ strings_nodes xs"

definition get_text_of :: "string \<Rightarrow> node list \<Rightarrow> string" where
  "get_text_of sep kids = join sep (filter (\<lambda>s. s \<noteq> []) (map strip (strings_nodes kids)))"

definition get_text :: "string \<Rightarrow> element \<Rightarrow> string" where
  "get_text sep e = (case e of (anc, a, kids) \<Rightarrow> get_text_of sep kids)"

text \<open>
  \<open>for inv in el.select(c): inv.decompose()\<close> for a compound selector \<open>c\<close>: every matching
  descendant is taken out of the tree, with everything below it.
\<close>

fun decompose_node :: "compound \<Rightarrow> node \<Rightarrow> node"
  and decompose_nodes :: "compound \<Rightarrow> node list \<Rightarrow> node list" where
  "decompose_node c (Tag a kids) = Tag a (decompose_nodes c kids)"
| "decompose_node c (NavigableString s) = NavigableString s"
| "decompose_node c (Comment s) = Comment s"
| "decompose_nodes c [] = []"
| "decompose_nodes c (x # xs) =
     (case x of
        Tag a kids \<Rightarrow>
          (if matches_compound c a then decompose_nodes c xs
           else decompose_node c x # decompose_nodes c xs)
      | _ \<Rightarrow> decompose_node c x # decompose_nodes c xs)"

text \<open>
  The element is part of the soup, so the soup changes with it: the first tag in document
  order that matches \<open>d\<close> loses its descendants that match \<open>c\<close>. The flag tells whether a tag
  matching \<open>d\<close> was found.
\<close>

fun decompose_in_node :: "compound \<Rightarrow> compound \<Rightarrow> node \<Rightarrow> bool \<times> node"
  and decompose_in_nodes :: "compound \<Rightarrow> compound \<Rightarrow> node list \<Rightarrow> bool \<times> node list" where
  "decompose_in_node d c (Tag a kids) =
     (if matches_compound d a then (True, Tag a (decompose_nodes c kids))
      else (case decompose_in_nodes d c kids of (found, kids') \<Rightarrow> (found, Tag a kids')))"
| "decompose_in_node d c (NavigableString s) = (False, NavigableString s)"
| "decompose_in_node d c (Comment s) = (False, Comment s)"
| "decompose_in_nodes d c [] = (False, [])"
| "decompose_in_nodes d c (x # xs) =
     (case decompose_in_node d c x of
        (True, x') \<Rightarrow> (True, x' # xs)
      | (False, x') \<Rightarrow>
          (case decompose_in_nodes d c xs of (found, xs') \<Rightarrow> (found, x' # xs')))"

section \<open>The world outside the scraper\<close>

text \<open>
  \<open>requests.get(url, headers=HEADERS, timeout=30)\<close> followed by \<open>raise_for_status()\<close> either
  raises a \<open>RequestException\<close> or gives the text of the page. What the network answers may
  differ from one request to the next, so the answer depends on the number of requests made
  before and on the URL.

  The HTML parser and \<open>urllib.parse.urljoin\<close> are library functions and are taken as they
  come. Both can raise: \<open>BeautifulSoup(text, "html.parser")\<close> raises \<open>ParserRejectedMarkup\<close>
  on markup that the parser rejects, and \<open>urljoin\<close> raises \<open>ValueError\<close> on a link whose
  host part is malformed. They answer \<open>None\<close> where they raise.
\<close>

datatype RequestException = ConnectionError | Timeout | HTTPError nat

record env =
  http :: "nat \<Rightarrow> string \<Rightarrow> RequestException + string"
  html_parser :: "string \<Rightarrow> soup option"
  urljoin :: "string \<Rightarrow> string \<Rightarrow> string option"

text \<open>
  The exceptions that no \<open>except\<close> clause of the scraper catches: every \<open>try\<close> of the source
  catches \<open>requests.RequestException\<close> only. A function that raises one of them is left at
  once, and so is its caller.
\<close>

datatype uncaught = ParserRejectedMarkup | ValueError

definition BeautifulSoup :: "env \<Rightarrow> string \<Rightarrow> uncaught + soup" where
  "BeautifulSoup e markup =
     (case html_parser e markup of None \<Rightarrow> Inl ParserRejectedMarkup | Some sp \<Rightarrow> Inr sp)"

definition py_urljoin :: "env \<Rightarrow> string \<Rightarrow> string \<Rightarrow> uncaught + string" where
  "py_urljoin e base u =
     (case urljoin e base u of None \<Rightarrow> Inl ValueError | Some r \<Rightarrow> Inr r)"

text \<open>
  What the scraper does to the world, in order: the requests it sends and the pauses it makes
  (\<open>time.sleep\<close>, in milliseconds). Log messages are left out.
\<close>

datatype event = Get string | Sleep nat

fun is_get :: "event \<Rightarrow> bool" where
  "is_get (Get u) = True"
| "is_get (Sleep d) = False"

definition requests_made :: "event list \<Rightarrow> nat" where
  "requests_made trace = length (filter is_get trace)"

definition requests_get :: "env \<Rightarrow> event list \<Rightarrow> string \<Rightarrow> (RequestException + string) \<times> event list" where
  "requests_get e trace u = (http e (requests_made trace) u, trace @ [Get u])"

text \<open>
  A call of the scraper ends in one of two ways: it raises an exception that nothing caught,
  or it returns its value. Either way the trace says what it did until then.
\<close>

datatype 'a outcome = Raised uncaught "event list" | Returned "'a \<times> event list"

section \<open>Constants\<close>

definition BASE_URL :: string where
  "BASE_URL = ''https://www.matthes-seitz-berlin.de''"

definition ALL_IMPRINTS :: "string list" where
  "ALL_IMPRINTS = [''matthes-seitz-berlin'', ''friedenauer-presse'', ''august-verlag'']"

definition sel :: "string \<Rightarrow> string option \<Rightarrow> string list \<Rightarrow> compound" where
  "sel n i cs = \<lparr>sel_name = n, sel_id = i, sel_classes = cs\<rparr>"

text \<open>\<open>"div#listpager p"\<close>, \<open>"li.item.item_product"\<close>, \<open>"h3.title a"\<close>.\<close>

definition pager_sel :: selector where
  "pager_sel = [sel ''div'' (Some ''listpager'') [], sel ''p'' None []]"

definition item_sel :: selector where
  "item_sel = [sel ''li'' None [''item'', ''item_product'']]"

definition link_sel :: selector where
  "link_sel = [sel ''h3'' None [''title''], sel ''a'' None []]"

text \<open>
  \<open>"h1.title"\<close>, \<open>"h2.subtitle"\<close>, \<open>"div.authors a.author"\<close>, \<open>"div.number"\<close>,
  \<open>"span.invisible"\<close>, \<open>"div.price span"\<close>, \<open>"div.info"\<close>, \<open>"div.dateof"\<close>, \<open>"div.serial a"\<close>,
  \<open>"div.keywords"\<close>, \<open>"div#pdesc div.description"\<close>.
\<close>

definition title_sel :: selector where
  "title_sel = [sel ''h1'' None [''title'']]"

definition subtitle_sel :: selector where
  "subtitle_sel = [sel ''h2'' None [''subtitle'']]"

definition author_sel :: selector where
  "author_sel = [sel ''div'' None [''authors''], sel ''a'' None [''author'']]"

definition number_c :: compound where
  "number_c = sel ''div'' None [''number'']"

definition invisible_c :: compound where
  "invisible_c = sel ''span'' None [''invisible'']"

definition price_sel :: selector where
  "price_sel = [sel ''div'' None [''price''], sel ''span'' None []]"

definition info_sel :: selector where
  "info_sel = [sel ''div'' None [''info'']]"

definition dateof_sel :: selector where
  "dateof_sel = [sel ''div'' None [''dateof'']]"

definition serial_sel :: selector where
  "serial_sel = [sel ''div'' None [''serial''], sel ''a'' None []]"

definition keywords_sel :: selector where
  "keywords_sel = [sel ''div'' None [''keywords'']]"

definition description_sel :: selector where
  "description_sel = [sel ''div'' (Some ''pdesc'') [], sel ''div'' None [''description'']]"

text \<open>The labels \<open>"Schlagworte:"\<close> and \<open>"Ver_ffentlicht:"\<close>, where the fourth letter is U+00F6.\<close>

definition keywords_label :: string where
  "keywords_label = ''Schlagworte:''"

definition dateof_label :: string where
  "dateof_label = ''Ver'' @ [CHR 0xF6] @ ''ffentlicht:''"

section \<open>URL Collector\<close>

record URLEntry =
  url :: string
  imprint :: string

text \<open>
  Lines 141 to 145: the link of one item. \<open>urljoin\<close> is called when the \<open>href\<close> does not start
  with \<open>http\<close>, and may raise.
\<close>

definition normalize_href :: "env \<Rightarrow> string \<Rightarrow> uncaught + string" where
  "normalize_href e href =
     (if \<not> startswith href ''http''
      then (case py_urljoin e BASE_URL href of
              Inl x \<Rightarrow> Inl x
            | Inr joined \<Rightarrow> Inr (sub_query joined))
      else Inr (sub_query href))"

text \<open>
  \<open>_extract_urls_from_page\<close>: one entry for every listing item that has a link with a
  non-empty \<open>href\<close>. \<open>if link and link.get("href")\<close> asks for the link to be there and for
  the attribute to be present and not the empty string. The first link on which \<open>urljoin\<close>
  raises ends the function.
\<close>

fun extract_items :: "env \<Rightarrow> string \<Rightarrow> element list \<Rightarrow> uncaught + URLEntry list" where
  "extract_items e imp [] = Inr []"
| "extract_items e imp (item # items) =
     (case el_select_one link_sel item of
        None \<Rightarrow> extract_items e imp items
      | Some (anc, a, kids) \<Rightarrow>
          (case tag_href a of
             None \<Rightarrow> extract_items e imp items
           | Some href \<Rightarrow>
               (if href = [] then extract_items e imp items
                else (case normalize_href e href of
                        Inl x \<Rightarrow> Inl x
                      | Inr u \<Rightarrow>
                          (case extract_items e imp items of
                             Inl x \<Rightarrow> Inl x
                           | Inr books \<Rightarrow> Inr (\<lparr>url = u, imprint = imp\<rparr> # books))))))"

definition extract_urls_from_page :: "env \<Rightarrow> soup \<Rightarrow> string \<Rightarrow> uncaught + URLEntry list" where
  "extract_urls_from_page e sp imp = extract_items e imp (select item_sel sp)"

text \<open>
  The total of the pager, lines 90 to 96 of the source. \<open>pager.get_text()\<close> is called without
  \<open>strip\<close>: the strings below the element, as they are, one after the other.
\<close>

definition get_text_plain :: "element \<Rightarrow> string" where
  "get_text_plain e = (case e of (anc, a, kids) \<Rightarrow> concat (strings_nodes kids))"

definition parse_total :: "soup \<Rightarrow> nat" where
  "parse_total sp =
     (case select_one pager_sel sp of
        None \<Rightarrow> 0
      | Some pager \<Rightarrow>
          (case search_count (get_text_plain pager) of
             None \<Rightarrow> 0
           | Some m \<Rightarrow> int_of_digits (replace_dots m)))"

text \<open>
  The limit is \<open>None\<close> or a Python integer. \<open>limit and len(all_books) >= limit\<close> is false for
  \<open>None\<close> and for \<open>0\<close>; \<open>all_books[:limit]\<close> with a negative limit drops that many entries
  from the end.
\<close>

definition truthy :: "int option \<Rightarrow> bool" where
  "truthy limit = (case limit of None \<Rightarrow> False | Some l \<Rightarrow> l \<noteq> 0)"

definition limit_reached :: "int option \<Rightarrow> 'a list \<Rightarrow> bool" where
  "limit_reached limit books =
     (case limit of None \<Rightarrow> False | Some l \<Rightarrow> l \<noteq> 0 \<and> l \<le> int (length books))"

definition slice_to :: "'a list \<Rightarrow> int option \<Rightarrow> 'a list" where
  "slice_to books limit =
     (case limit of
        None \<Rightarrow> books
      | Some l \<Rightarrow> (if 0 \<le> l then take (nat l) books
                  else take (length books - nat (- l)) books))"

text \<open>
  A loop body raises, or returns from \<open>collect_urls\<close>, or goes on with the list collected so
  far; each carries the trace of events.
\<close>

type_synonym collected = "URLEntry list \<times> event list"

datatype flow = Raise uncaught "event list" | Return collected | Proceed collected

text \<open>
  The loop over \<open>range(1, num_pages)\<close>, lines 109 to 128: the limit is checked before each
  page, then one second of sleep and the request. A page whose request fails is skipped; a
  page that the parser rejects, or a link that \<open>urljoin\<close> rejects, is not caught by
  \<open>except requests.RequestException\<close>.
\<close>

fun paginate :: "env \<Rightarrow> int option \<Rightarrow> string \<Rightarrow> string \<Rightarrow> nat list \<Rightarrow> collected \<Rightarrow> flow" where
  "paginate e limit catalog_url imp [] st = Proceed st"
| "paginate e limit catalog_url imp (page_idx # rest) (all_books, trace) =
     (if limit_reached limit all_books then Return (slice_to all_books limit, trace)
      else
        (let page_url = catalog_url @ ''?p='' @ str_nat page_idx in
         case requests_get e (trace @ [Sleep 1000]) page_url of
           (Inl err, trace') \<Rightarrow> paginate e limit catalog_url imp rest (all_books, trace')
         | (Inr text, trace') \<Rightarrow>
             (case BeautifulSoup e text of
                Inl x \<Rightarrow> Raise x trace'
              | Inr sp \<Rightarrow>
                  (case extract_urls_from_page e sp imp of
                     Inl x \<Rightarrow> Raise x trace'
                   | Inr books_on_page \<Rightarrow>
                       paginate e limit catalog_url imp rest
                         (all_books @ books_on_page, trace')))))"

text \<open>The body of the loop over the imprints, lines 78 to 128.\<close>

definition catalog_url_of :: "string \<Rightarrow> string" where
  "catalog_url_of imp = BASE_URL @ ''/'' @ imp @ ''/lieferbar.html''"

definition collect_imprint :: "env \<Rightarrow> int option \<Rightarrow> string \<Rightarrow> collected \<Rightarrow> flow" where
  "collect_imprint e limit imp st =
     (case st of (all_books, trace) \<Rightarrow>
        (case requests_get e trace (catalog_url_of imp) of
           (Inl err, trace') \<Rightarrow> Proceed (all_books, trace')
         | (Inr text, trace') \<Rightarrow>
             (case BeautifulSoup e text of
                Inl x \<Rightarrow> Raise x trace'
              | Inr sp \<Rightarrow>
                  (let total = parse_total sp in
                   case extract_urls_from_page e sp imp of
                     Inl x \<Rightarrow> Raise x trace'
                   | Inr books_on_page \<Rightarrow>
                       (let all_books' = all_books @ books_on_page
                        in if limit_reached limit all_books'
                           then Return (slice_to all_books' limit, trace')
                           else if 24 < total
                             then paginate e limit (catalog_url_of imp) imp
                                    [1 ..< (total + 23) div 24] (all_books', trace')
                             else Proceed (all_books', trace'))))))"

fun collect_loop :: "env \<Rightarrow> int option \<Rightarrow> string list \<Rightarrow> collected \<Rightarrow> URLEntry list outcome" where
  "collect_loop e limit [] (all_books, trace) =
     (if truthy limit then Returned (slice_to all_books limit, trace)
      else Returned (all_books, trace))"
| "collect_loop e limit (imp # imps) st =
     (case collect_imprint e limit imp st of
        Raise x trace \<Rightarrow> Raised x trace
      | Return r \<Rightarrow> Returned r
      | Proceed st' \<Rightarrow> collect_loop e limit imps st')"

text \<open>\<open>collect_urls\<close>; the trace says what happened before the call.\<close>

definition collect_urls :: "env \<Rightarrow> string list option \<Rightarrow> int option \<Rightarrow> event list \<Rightarrow> URLEntry list outcome" where
  "collect_urls e imprints limit trace =
     collect_loop e limit (case imprints of None \<Rightarrow> ALL_IMPRINTS | Some l \<Rightarrow> l) ([], trace)"

section \<open>Detail Scraper\<close>

text \<open>
  A book is the dictionary that \<open>_parse_detail_page\<close> builds: its keys in the order of the
  literal, each with \<open>None\<close>, a string or a list of strings.
\<close>

datatype pyval = PyNone | PyStr string | PyList "string list"

type_synonym book = "(string \<times> pyval) list"

definition opt_str :: "string option \<Rightarrow> pyval" where
  "opt_str v = (case v of None \<Rightarrow> PyNone | Some s \<Rightarrow> PyStr s)"

text \<open>Lines 206 to 215: the ISBN of the number block, read after the hidden spans are gone.\<close>

definition parse_isbn :: "element \<Rightarrow> string option" where
  "parse_isbn number_el =
     (case number_el of (anc, a, kids) \<Rightarrow>
        (case search_isbn (get_text_of [] (decompose_nodes invisible_c kids)) of
           None \<Rightarrow> None
         | Some m \<Rightarrow> Some (strip m)))"

text \<open>Lines 247 to 249: the keywords of the text of the keyword block.\<close>

definition parse_keywords :: "string \<Rightarrow> string list" where
  "parse_keywords text =
     map strip (filter (\<lambda>kw. strip kw \<noteq> []) (split_on CHR '','' (sub_label keywords_label text)))"

text \<open>Lines 233 to 235: the date of the text of the date block.\<close>

definition parse_date :: "string \<Rightarrow> string" where
  "parse_date text = strip (sub_label dateof_label text)"

text \<open>
  The page as lines 209 to 211 leave it: when there is a number block, the hidden spans below
  the first one are gone; otherwise the page is as it was.
\<close>

definition after_isbn :: "soup \<Rightarrow> soup" where
  "after_isbn sp =
     (case select_one [number_c] sp of
        None \<Rightarrow> sp
      | Some number_el \<Rightarrow> snd (decompose_in_nodes number_c invisible_c sp))"

text \<open>
  Lines 191 to 270 of \<open>_parse_detail_page\<close>, on the parsed page. Title, subtitle and authors
  are read from the page as parsed; the fields after the ISBN are read from the page as the
  ISBN step left it.
\<close>

definition detail_record :: "soup \<Rightarrow> string \<Rightarrow> string \<Rightarrow> book option" where
  "detail_record sp u imp =
     (case select_one title_sel sp of
        None \<Rightarrow> None
      | Some title_el \<Rightarrow>
          (let title = get_text [] title_el;
               subtitle = map_option (get_text []) (select_one subtitle_sel sp);
               authors = map (get_text []) (select author_sel sp);
               isbn = (case select_one [number_c] sp of
                         None \<Rightarrow> None
                       | Some number_el \<Rightarrow> parse_isbn number_el);
               sp' = after_isbn sp;
               price = map_option (get_text []) (select_one price_sel sp');
               info = map_option (get_text []) (select_one info_sel sp');
               date = map_option (\<lambda>el. parse_date (get_text [] el)) (select_one dateof_sel sp');
               series = map_option (get_text []) (select_one serial_sel sp');
               keywords = (case select_one keywords_sel sp' of
                             None \<Rightarrow> []
                           | Some kw_el \<Rightarrow> parse_keywords (get_text [] kw_el));
               description = map_option (get_text [line_feed]) (select_one description_sel sp')
           in Some [(''url'', PyStr u),
                    (''imprint'', PyStr imp),
                    (''title'', PyStr title),
                    (''subtitle'', opt_str subtitle),
                    (''authors'', PyList authors),
                    (''isbn'', opt_str isbn),
                    (''price'', opt_str price),
                    (''pages_binding'', opt_str info),
                    (''year'', opt_str date),
                    (''series'', opt_str series),
                    (''keywords'', PyList keywords),
                    (''description'', opt_str description)]))"

text \<open>\<open>_parse_detail_page\<close>: line 189 parses the page, and may raise; the rest reads it.\<close>

definition parse_detail_page :: "env \<Rightarrow> string \<Rightarrow> string \<Rightarrow> string \<Rightarrow> uncaught + book option" where
  "parse_detail_page e html u imp =
     (case BeautifulSoup e html of
        Inl x \<Rightarrow> Inl x
      | Inr sp \<Rightarrow> Inr (detail_record sp u imp))"

text \<open>
  \<open>scrape_books\<close>: the loop over \<open>enumerate(book_urls)\<close>. \<open>if book\<close> asks for a dictionary
  that is there and not empty. Half a second of sleep follows every entry but the last. A
  request that fails is caught; a page that the parser rejects ends the call.
\<close>

type_synonym scraped = "book list \<times> event list"

fun scrape_loop :: "env \<Rightarrow> nat \<Rightarrow> nat \<Rightarrow> URLEntry list \<Rightarrow> scraped \<Rightarrow> book list outcome" where
  "scrape_loop e total_n i [] st = Returned st"
| "scrape_loop e total_n i (entry # rest) (results, trace) =
     (case requests_get e trace (url entry) of
        (response, trace') \<Rightarrow>
          (let trace'' = (if int i < int total_n - 1 then trace' @ [Sleep 500] else trace') in
           case response of
             Inl err \<Rightarrow> scrape_loop e total_n (i + 1) rest (results, trace'')
           | Inr text \<Rightarrow>
               (case parse_detail_page e text (url entry) (imprint entry) of
                  Inl x \<Rightarrow> Raised x trace'
                | Inr None \<Rightarrow> scrape_loop e total_n (i + 1) rest (results, trace'')
                | Inr (Some book) \<Rightarrow>
                    scrape_loop e total_n (i + 1) rest
                      (if book \<noteq> [] then results @ [book] else results, trace''))))"

definition scrape_books :: "env \<Rightarrow> URLEntry list \<Rightarrow> event list \<Rightarrow> book list outcome" where
  "scrape_books e book_urls trace = scrape_loop e (length book_urls) 0 book_urls ([], trace)"

text \<open>\<open>scrape_catalog\<close>: the two phases, one after the other.\<close>

definition scrape_catalog :: "env \<Rightarrow> string list option \<Rightarrow> int option \<Rightarrow> event list \<Rightarrow> book list outcome" where
  "scrape_catalog e imprints limit trace =
     (case collect_urls e imprints limit trace of
        Raised x trace' \<Rightarrow> Raised x trace'
      | Returned (book_urls, trace') \<Rightarrow> scrape_books e book_urls trace')"

section \<open>Definitions that follow the words of the specification\<close>

text \<open>
  Keyword extraction as the specification words it: the label at the start is taken off, the
  text is split on commas, each entry is trimmed, and the empty entries are dropped.
\<close>

definition strip_label_spec :: "string \<Rightarrow> string" where
  "strip_label_spec text =
     (if startswith text keywords_label then drop (length keywords_label) text else text)"

definition keywords_spec :: "string \<Rightarrow> string list" where
  "keywords_spec text =
     filter (\<lambda>kw. kw \<noteq> []) (map strip (split_on CHR '','' (strip_label_spec text)))"

section \<open>A small catalog for the examples\<close>

definition tag :: "string \<Rightarrow> string option \<Rightarrow> string list \<Rightarrow> string option \<Rightarrow> node list \<Rightarrow> node" where
  "tag n i cs h kids = Tag \<lparr>tag_name = n, tag_id = i, tag_classes = cs, tag_href = h\<rparr> kids"

definition ex_item :: "string \<Rightarrow> node" where
  "ex_item href =
     tag ''li'' None [''item'', ''item_product''] None
       [tag ''h3'' None [''title''] None [tag ''a'' None [] (Some href) [NavigableString ''Buch'']]]"

definition ex_pager :: "string \<Rightarrow> node" where
  "ex_pager s = tag ''div'' (Some ''listpager'') [] None [tag ''p'' None [] None [NavigableString s]]"

text \<open>
  Imprint \<open>a\<close>: a first page that announces 50 titles and lists two, a second page that lists
  one, a third page that times out. Imprint \<open>b\<close>: the first page fails. Imprint \<open>c\<close>: no pager,
  an item without a link, an item with an empty \<open>href\<close> and an item with a link. Imprint \<open>d\<close>:
  a first page that announces 25 titles and lists one, and a second page that lists one.
\<close>

definition ex_page_a0 :: soup where
  "ex_page_a0 =
     [ex_pager ''Anzahl: 50'',
      tag ''ul'' None [] None
        [ex_item ''/a/buch-1.html?lid=1'',
         ex_item ''https://www.matthes-seitz-berlin.de/a/buch-2.html?lid=2'']]"

definition ex_page_a1 :: soup where
  "ex_page_a1 = [ex_pager ''Anzahl: 50'', tag ''ul'' None [] None [ex_item ''/a/buch-3.html'']]"

definition ex_page_d0 :: soup where
  "ex_page_d0 = [ex_pager ''Anzahl: 25'', tag ''ul'' None [] None [ex_item ''/a/buch-1.html?lid=1'']]"

definition ex_page_c0 :: soup where
  "ex_page_c0 =
     [tag ''ul'' None [] None
        [tag ''li'' None [''item'', ''item_product''] None [NavigableString ''ohne Link''],
         ex_item [],
         ex_item ''/c/buch-4.html'']]"

text \<open>
  The detail pages: the first book has a title, a number block with a hidden span and a
  keyword block; the request for the second book fails; the page of the third book has no
  title; the page of the fourth book has a title and nothing else. The parser rejects the
  page of the sixth book.
\<close>

definition ex_detail_1 :: soup where
  "ex_detail_1 =
     [tag ''h1'' None [''title''] None [NavigableString '' Der Titel ''],
      tag ''div'' None [''number''] None
        [NavigableString ''ISBN: 978-3-95757-123-4'',
         tag ''span'' None [''invisible''] None [NavigableString ''9783957571234'']],
      tag ''div'' None [''keywords''] None [NavigableString ''Schlagworte: Philosophie, Ethik,  '']]"

text \<open>
  A fifth detail page: the visible ISBN and its hidden span are followed by the edition.
\<close>

definition ex_detail_5 :: soup where
  "ex_detail_5 =
     [tag ''h1'' None [''title''] None [NavigableString ''Fuenftes Buch''],
      tag ''div'' None [''number''] None
        [NavigableString ''978-3-95757-123-4'',
         tag ''span'' None [''invisible''] None [NavigableString ''9783957571234''],
         NavigableString ''2. Auflage'']]"

text \<open>
  A seventh detail page: the date block holds its label and nothing else, and the span of the
  price block is empty; the number block holds no ISBN.
\<close>

definition ex_detail_7 :: soup where
  "ex_detail_7 =
     [tag ''h1'' None [''title''] None [NavigableString ''Siebtes Buch''],
      tag ''div'' None [''number''] None [NavigableString ''vergriffen''],
      tag ''div'' None [''price''] None [tag ''span'' None [] None []],
      tag ''div'' None [''dateof''] None [NavigableString dateof_label]]"

definition ex_detail_3 :: soup where
  "ex_detail_3 = [tag ''div'' None [''info''] None [NavigableString ''92 Seiten'']]"

definition ex_detail_4 :: soup where
  "ex_detail_4 = [tag ''h1'' None [''title''] None [NavigableString ''Viertes Buch'']]"

definition ex_http :: "nat \<Rightarrow> string \<Rightarrow> RequestException + string" where
  "ex_http n u =
     (if u = ''https://www.matthes-seitz-berlin.de/a/lieferbar.html'' then Inr ''a0''
      else if u = ''https://www.matthes-seitz-berlin.de/a/lieferbar.html?p=1'' then Inr ''a1''
      else if u = ''https://www.matthes-seitz-berlin.de/a/lieferbar.html?p=2'' then Inl Timeout
      else if u = ''https://www.matthes-seitz-berlin.de/a/lieferbar.html?p=3'' then Inr ''a1''
      else if u = ''https://www.matthes-seitz-berlin.de/c/lieferbar.html'' then Inr ''c0''
      else if u = ''https://www.matthes-seitz-berlin.de/d/lieferbar.html'' then Inr ''d0''
      else if u = ''https://www.matthes-seitz-berlin.de/d/lieferbar.html?p=1'' then Inr ''a1''
      else if u = ''https://www.matthes-seitz-berlin.de/a/buch-1.html'' then Inr ''d1''
      else if u = ''https://www.matthes-seitz-berlin.de/a/buch-3.html'' then Inr ''d3''
      else if u = ''https://www.matthes-seitz-berlin.de/c/buch-4.html'' then Inr ''d4''
      else if u = ''https://www.matthes-seitz-berlin.de/a/buch-6.html'' then Inr ''d6''
      else Inl (HTTPError 500))"

definition ex_parser :: "string \<Rightarrow> soup option" where
  "ex_parser s =
     (if s = ''a0'' then Some ex_page_a0
      else if s = ''a1'' then Some ex_page_a1
      else if s = ''c0'' then Some ex_page_c0
      else if s = ''d0'' then Some ex_page_d0
      else if s = ''d1'' then Some ex_detail_1
      else if s = ''d3'' then Some ex_detail_3
      else if s = ''d4'' then Some ex_detail_4
      else if s = ''d5'' then Some ex_detail_5
      else if s = ''d6'' then None
      else if s = ''d7'' then Some ex_detail_7
      else Some [])"

text \<open>A stand-in for \<open>urljoin\<close>: it rejects a link that opens a bracket in its host part.\<close>

definition ex_urljoin :: "string \<Rightarrow> string \<Rightarrow> string option" where
  "ex_urljoin base href = (if startswith href ''//['' then None else Some (base @ href))"

definition ex_env :: env where
  "ex_env = \<lparr>http = ex_http, html_parser = ex_parser, urljoin = ex_urljoin\<rparr>"

definition ex_entries :: "URLEntry list" where
  "ex_entries =
     [\<lparr>url = ''https://www.matthes-seitz-berlin.de/a/buch-1.html'', imprint = ''a''\<rparr>,
      \<lparr>url = ''https://www.matthes-seitz-berlin.de/a/buch-2.html'', imprint = ''a''\<rparr>,
      \<lparr>url = ''https://www.matthes-seitz-berlin.de/a/buch-3.html'', imprint = ''a''\<rparr>,
      \<lparr>url = ''https://www.matthes-seitz-berlin.de/c/buch-4.html'', imprint = ''c''\<rparr>]"

text \<open>What an unlimited run over the small catalog does: seven requests, two pauses.\<close>

definition ex_collect_trace :: "event list" where
  "ex_collect_trace =
     [Get ''https://www.matthes-seitz-berlin.de/a/lieferbar.html'',
      Sleep 1000,
      Get ''https://www.matthes-seitz-berlin.de/a/lieferbar.html?p=1'',
      Sleep 1000,
      Get ''https://www.matthes-seitz-berlin.de/a/lieferbar.html?p=2'',
      Get ''https://www.matthes-seitz-berlin.de/b/lieferbar.html'',
      Get ''https://www.matthes-seitz-berlin.de/c/lieferbar.html'']"

section \<open>Reading a loop's outcome\<close>

text \<open>The trace a loop body ends with, however it ends.\<close>

fun flow_trace :: "flow \<Rightarrow> event list" where
  "flow_trace (Raise x trace) = trace"
| "flow_trace (Return st) = snd st"
| "flow_trace (Proceed st) = snd st"

text \<open>Half a second of pause follows every entry of the detail loop but the last.\<close>

definition pause_after :: "nat \<Rightarrow> nat \<Rightarrow> event list" where
  "pause_after total_n i = (if int i < int total_n - 1 then [Sleep 500] else [])"

text \<open>What the pagination loop does when no page is cut off: a pause and a request per page.\<close>

definition page_events :: "string \<Rightarrow> nat list \<Rightarrow> event list" where
  "page_events catalog_url ps =
     concat (map (\<lambda>p. [Sleep 1000, Get (catalog_url @ ''?p='' @ str_nat p)]) ps)"

text \<open>
  A page of the pagination that does not end the call: its request fails, or the parser
  accepts the page and \<open>urljoin\<close> accepts its links. The pair is the number of requests made
  before and the URL of the page.
\<close>

definition page_accepted :: "env \<Rightarrow> string \<Rightarrow> nat \<times> string \<Rightarrow> bool" where
  "page_accepted e imp = (\<lambda>(n, u).
     (case http e n u of
        Inl err \<Rightarrow> True
      | Inr body \<Rightarrow>
          (case html_parser e body of
             None \<Rightarrow> False
           | Some sp \<Rightarrow>
               (case extract_urls_from_page e sp imp of Inl x \<Rightarrow> False | Inr books \<Rightarrow> True))))"

definition page_url_of :: "string \<Rightarrow> nat \<Rightarrow> string" where
  "page_url_of catalog_url p = catalog_url @ ''?p='' @ str_nat p"

text \<open>A string without a decimal digit: the pager pattern finds no number in it.\<close>

definition no_digit :: "string \<Rightarrow> bool" where
  "no_digit s = list_all (\<lambda>c. \<not> py_isdigit c) s"

section \<open>The records of the specification\<close>

text \<open>The twelve keys of a BookRecord, in the order of the dictionary literal.\<close>

definition book_keys :: "string list" where
  "book_keys = [''url'', ''imprint'', ''title'', ''subtitle'', ''authors'', ''isbn'', ''price'',
                ''pages_binding'', ''year'', ''series'', ''keywords'', ''description'']"

text \<open>\<open>book[key]\<close> for a key that is there.\<close>

definition field :: "book \<Rightarrow> string \<Rightarrow> pyval option" where
  "field b k = map_of b k"

text \<open>
  What one entry comes to when its request is the \<open>n\<close>-th: the request fails, or the parser
  rejects the page, or the page has no title element, or the page gives a record.
\<close>

definition fetch_fails :: "env \<Rightarrow> nat \<Rightarrow> URLEntry \<Rightarrow> bool" where
  "fetch_fails e n entry = (case http e n (url entry) of Inl err \<Rightarrow> True | Inr body \<Rightarrow> False)"

definition rejected :: "env \<Rightarrow> nat \<Rightarrow> URLEntry \<Rightarrow> bool" where
  "rejected e n entry =
     (case http e n (url entry) of
        Inl err \<Rightarrow> False
      | Inr body \<Rightarrow> html_parser e body = None)"

definition titleless :: "env \<Rightarrow> nat \<Rightarrow> URLEntry \<Rightarrow> bool" where
  "titleless e n entry =
     (case http e n (url entry) of
        Inl err \<Rightarrow> False
      | Inr body \<Rightarrow>
          (case html_parser e body of
             None \<Rightarrow> False
           | Some sp \<Rightarrow> select_one title_sel sp = None))"

definition detail_result :: "env \<Rightarrow> nat \<Rightarrow> URLEntry \<Rightarrow> book option" where
  "detail_result e n entry =
     (case http e n (url entry) of
        Inl err \<Rightarrow> None
      | Inr body \<Rightarrow>
          (case html_parser e body of
             None \<Rightarrow> None
           | Some sp \<Rightarrow> detail_record sp (url entry) (imprint entry)))"

text \<open>
  What the loop over the entries does when it is not cut off: a request per entry, each but
  the last followed by its pause. The entries are counted from \<open>i\<close>.
\<close>

definition detail_events :: "nat \<Rightarrow> nat \<Rightarrow> URLEntry list \<Rightarrow> event list" where
  "detail_events total_n i entries =
     concat (map (\<lambda>(k, entry). Get (url entry) # pause_after total_n k) (enumerate i entries))"

text \<open>The records an uncut loop makes of the entries, the first request being the \<open>n\<close>-th.\<close>

definition detail_results :: "env \<Rightarrow> nat \<Rightarrow> URLEntry list \<Rightarrow> book list" where
  "detail_results e n entries =
     List.map_filter (\<lambda>(k, entry). detail_result e k entry) (enumerate n entries)"

text \<open>The entry of the sixth book, whose page the parser rejects.\<close>

definition ex_entry_6 :: URLEntry where
  "ex_entry_6 = \<lparr>url = ''https://www.matthes-seitz-berlin.de/a/buch-6.html'', imprint = ''a''\<rparr>"

text \<open>The record of the first book of the small catalog.\<close>

definition ex_book_1 :: book where
  "ex_book_1 =
     [(''url'', PyStr ''https://www.matthes-seitz-berlin.de/a/buch-1.html''),
      (''imprint'', PyStr ''a''),
      (''title'', PyStr ''Der Titel''),
      (''subtitle'', PyNone),
      (''authors'', PyList []),
      (''isbn'', PyStr ''978-3-95757-123-4''),
      (''price'', PyNone),
      (''pages_binding'', PyNone),
      (''year'', PyNone),
      (''series'', PyNone),
      (''keywords'', PyList [''Philosophie'', ''Ethik'']),
      (''description'', PyNone)]"

text \<open>The record of the fourth book of the small catalog.\<close>

definition ex_book_4 :: book where
  "ex_book_4 =
     [(''url'', PyStr ''https://www.matthes-seitz-berlin.de/c/buch-4.html''),
      (''imprint'', PyStr ''c''),
      (''title'', PyStr ''Viertes Buch''),
      (''subtitle'', PyNone),
      (''authors'', PyList []),
      (''isbn'', PyNone),
      (''price'', PyNone),
      (''pages_binding'', PyNone),
      (''year'', PyNone),
      (''series'', PyNone),
      (''keywords'', PyList []),
      (''description'', PyNone)]"

text \<open>The record of the fifth detail page, for the URL \<open>u\<close> and the imprint \<open>a\<close>.\<close>

definition ex_book_5 :: book where
  "ex_book_5 =
     [(''url'', PyStr ''u''),
      (''imprint'', PyStr ''a''),
      (''title'', PyStr ''Fuenftes Buch''),
      (''subtitle'', PyNone),
      (''authors'', PyList []),
      (''isbn'', PyStr ''978-3-95757-123-42''),
      (''price'', PyNone),
      (''pages_binding'', PyNone),
      (''year'', PyNone),
      (''series'', PyNone),
      (''keywords'', PyList []),
      (''description'', PyNone)]"


section \<open>Links and absolute URLs\<close>

text \<open>
  The link of a listing item that can be resolved: the \<open>href\<close> of its first \<open>h3.title a\<close>
  element, when that is there and not empty.
\<close>

definition item_href :: "element \<Rightarrow> string option" where
  "item_href item =
     (case el_select_one link_sel item of
        None \<Rightarrow> None
      | Some (anc, a, kids) \<Rightarrow>
          (case tag_href a of
             None \<Rightarrow> None
           | Some href \<Rightarrow> if href = [] then None else Some href))"

text \<open>
  An absolute URL begins with a scheme and a colon; a scheme is a letter followed by letters,
  digits, \<open>+\<close>, \<open>-\<close> or \<open>.\<close> (RFC 3986). As URL parsers read it, white space and control
  characters in front of the scheme, and tabs and line breaks inside it, do not count.
\<close>

definition is_alpha :: "char \<Rightarrow> bool" where
  "is_alpha c = (c \<in> set ''abcdefghijklmnopqrstuvwxyzABCDEFGHIJKLMNOPQRSTUVWXYZ'')"

definition scheme_char :: "char \<Rightarrow> bool" where
  "scheme_char c = (is_alpha c \<or> py_isdigit c \<or> c \<in> set ''+-.'')"

definition c0_or_space :: "char \<Rightarrow> bool" where
  "c0_or_space c = (of_char c \<le> (32 :: nat))"

definition tab_or_newline :: "char \<Rightarrow> bool" where
  "tab_or_newline c = (c \<in> set [CHR 0x09, CHR 0x0A, CHR 0x0D])"

definition scheme_of :: "string \<Rightarrow> string" where
  "scheme_of u =
     filter (\<lambda>c. \<not> tab_or_newline c) (dropWhile c0_or_space (takeWhile (\<lambda>c. c \<noteq> CHR '':'') u))"

definition absolute_url :: "string \<Rightarrow> bool" where
  "absolute_url u =
     (length (takeWhile (\<lambda>c. c \<noteq> CHR '':'') u) < length u
      \<and> scheme_of u \<noteq> [] \<and> is_alpha (hd (scheme_of u)) \<and> list_all scheme_char (scheme_of u))"

text \<open>
  What \<open>urljoin\<close> does with the base URL of the scraper and a link that is not empty, in every
  version of the library: it raises, or it builds a URL on the scheme of the base, or it
  returns the link as it is because the link has a scheme of its own.
\<close>

definition urljoin_contract :: "env \<Rightarrow> bool" where
  "urljoin_contract e =
     (\<forall>href. href \<noteq> [] \<longrightarrow>
        (case urljoin e BASE_URL href of
           None \<Rightarrow> True
         | Some u \<Rightarrow> startswith u ''https://'' \<or> (u = href \<and> absolute_url href)))"

text \<open>The links of a listing page that can be resolved, in the order of the page.\<close>

definition page_hrefs :: "soup \<Rightarrow> string list" where
  "page_hrefs sp = List.map_filter item_href (select item_sel sp)"

section \<open>The ISBN of the specification\<close>

text \<open>
  A valid 13-digit ISBN beginning with \<open>978\<close>, hyphens allowed: it reads \<open>978\<close> first, consists
  of digits and hyphens, and has exactly thirteen digits.
\<close>

definition valid_isbn13 :: "string \<Rightarrow> bool" where
  "valid_isbn13 code =
     (startswith code ''978'' \<and> list_all isbn_char code \<and> length (filter py_isdigit code) = 13)"

text \<open>The number block of the first book, as \<open>select_one\<close> returns it.\<close>

definition ex_number_block :: element where
  "ex_number_block =
     ([], \<lparr>tag_name = ''div'', tag_id = None, tag_classes = [''number''], tag_href = None\<rparr>,
      [NavigableString ''ISBN: 978-3-95757-123-4'',
       tag ''span'' None [''invisible''] None [NavigableString ''9783957571234'']])"

section \<open>Strings: trimming and splitting\<close>

lemma split_on_not_Nil: "split_on c s \<noteq> []"
  by (induction s) (auto split: list.splits)

lemma sep_notin_split_on: "p \<in> set (split_on c s) \<Longrightarrow> c \<notin> set p"
  by (induction s arbitrary: p) (auto split: list.splits if_splits)

lemma set_strip: "set (strip s) \<subseteq> set s"
proof
  fix x assume "x \<in> set (strip s)"
  then have "x \<in> set (dropWhile py_isspace (rev (dropWhile py_isspace s)))"
    by (simp add: strip_def lstrip_def rstrip_def)
  then have "x \<in> set (rev (dropWhile py_isspace s))" by (rule set_dropWhileD)
  then have "x \<in> set (dropWhile py_isspace s)" by simp
  then show "x \<in> set s" by (rule set_dropWhileD)
qed

lemma rstrip_append_nonspace: "\<not> py_isspace c \<Longrightarrow> rstrip (s @ [c]) = s @ [c]"
  by (simp add: rstrip_def)

lemma rstrip_append_space: "py_isspace c \<Longrightarrow> rstrip (s @ [c]) = rstrip s"
  by (simp add: rstrip_def)

lemma lstrip_fixed: "s = [] \<or> \<not> py_isspace (hd s) \<Longrightarrow> lstrip s = s"
  by (cases s) (simp_all add: lstrip_def)

lemma rstrip_fixed: "s = [] \<or> \<not> py_isspace (last s) \<Longrightarrow> rstrip s = s"
  by (cases s rule: rev_cases) (simp_all add: rstrip_def)

lemma strip_fixed: "s = [] \<or> (\<not> py_isspace (hd s) \<and> \<not> py_isspace (last s)) \<Longrightarrow> strip s = s"
  by (auto simp: strip_def lstrip_fixed rstrip_fixed)

lemma rstrip_ends: "rstrip s = [] \<or> \<not> py_isspace (last (rstrip s))"
proof (induction s rule: rev_induct)
  case Nil
  show ?case by (simp add: rstrip_def)
next
  case (snoc x xs)
  show ?case
  proof (cases "py_isspace x")
    case True
    with snoc show ?thesis by (simp only: rstrip_append_space)
  next
    case False
    then show ?thesis by (simp add: rstrip_append_nonspace)
  qed
qed

lemma rstrip_hd: "rstrip s \<noteq> [] \<Longrightarrow> hd (rstrip s) = hd s"
proof (induction s rule: rev_induct)
  case Nil
  then show ?case by (simp add: rstrip_def)
next
  case (snoc x xs)
  show ?case
  proof (cases "py_isspace x")
    case True
    then have eq: "rstrip (xs @ [x]) = rstrip xs" by (rule rstrip_append_space)
    with snoc.prems have ne: "rstrip xs \<noteq> []" by simp
    then have "xs \<noteq> []" by (auto simp: rstrip_def)
    then have "hd (xs @ [x]) = hd xs" by simp
    with snoc.IH [OF ne] eq show ?thesis by simp
  next
    case False
    then show ?thesis by (simp add: rstrip_append_nonspace)
  qed
qed

lemma lstrip_starts: "lstrip s = [] \<or> \<not> py_isspace (hd (lstrip s))"
proof (cases "dropWhile py_isspace s = []")
  case True
  then show ?thesis by (simp add: lstrip_def)
next
  case False
  then show ?thesis unfolding lstrip_def by (simp only: hd_dropWhile not_False_eq_True simp_thms)
qed

lemma strip_shape: "strip s = [] \<or> (\<not> py_isspace (hd (strip s)) \<and> \<not> py_isspace (last (strip s)))"
proof (cases "strip s = []")
  case True
  then show ?thesis by simp
next
  case False
  then have ne: "rstrip (lstrip s) \<noteq> []" by (simp add: strip_def)
  then have "lstrip s \<noteq> []" by (auto simp: rstrip_def)
  with lstrip_starts [of s] have "\<not> py_isspace (hd (lstrip s))" by simp
  with rstrip_hd [OF ne] have "\<not> py_isspace (hd (strip s))" by (simp add: strip_def)
  moreover from rstrip_ends [of "lstrip s"] ne have "\<not> py_isspace (last (strip s))"
    by (simp add: strip_def)
  ultimately show ?thesis by simp
qed

lemma strip_strip: "strip (strip s) = strip s"
  by (rule strip_fixed) (rule strip_shape)

lemma strip_lstrip: "strip (dropWhile py_isspace s) = strip s"
  by (simp add: strip_def lstrip_def)

lemma comma_not_space: "\<not> py_isspace CHR '',''"
  by (simp add: py_isspace_def)

lemma split_on_dropWhile:
  "\<not> P c \<Longrightarrow> split_on c (dropWhile P s) = (case split_on c s of p # ps \<Rightarrow> dropWhile P p # ps | [] \<Rightarrow> [])"
proof (induction s)
  case Nil
  then show ?case by simp
next
  case (Cons x xs)
  obtain p ps where sp: "split_on c xs = p # ps"
    using split_on_not_Nil [of c xs] by (cases "split_on c xs") auto
  show ?case
  proof (cases "P x")
    case True
    with Cons have "x \<noteq> c" by auto
    with True Cons sp show ?thesis by simp
  next
    case False
    then show ?thesis by (simp add: sp)
  qed
qed

lemma keywords_lstrip:
  "map strip (filter (\<lambda>kw. strip kw \<noteq> []) (split_on CHR '','' (dropWhile py_isspace s))) =
   map strip (filter (\<lambda>kw. strip kw \<noteq> []) (split_on CHR '','' s))"
proof -
  obtain p ps where sp: "split_on CHR '','' s = p # ps"
    using split_on_not_Nil [of "CHR '',''" s] by (cases "split_on CHR '','' s") auto
  have "split_on CHR '','' (dropWhile py_isspace s) = dropWhile py_isspace p # ps"
    using split_on_dropWhile [of py_isspace "CHR '',''" s] comma_not_space by (simp add: sp)
  then show ?thesis by (simp add: sp strip_lstrip)
qed

section \<open>Keyword extraction\<close>

lemma parse_keywords_refines: "parse_keywords text = keywords_spec text"
  by (simp add: parse_keywords_def keywords_spec_def strip_label_spec_def sub_label_def
      filter_map comp_def keywords_lstrip)

lemma parse_keywords_entries:
  "list_all (\<lambda>kw. kw \<noteq> [] \<and> strip kw = kw \<and> CHR '','' \<notin> set kw) (parse_keywords text)"
proof -
  have "kw \<noteq> [] \<and> strip kw = kw \<and> CHR '','' \<notin> set kw" if "kw \<in> set (parse_keywords text)" for kw
  proof -
    from that obtain p where p: "p \<in> set (split_on CHR '','' (sub_label keywords_label text))"
      and ne: "strip p \<noteq> []" and kw: "kw = strip p"
      by (auto simp: parse_keywords_def)
    from sep_notin_split_on [OF p] set_strip [of p] have "CHR '','' \<notin> set (strip p)" by blast
    with ne kw show ?thesis by (simp add: strip_strip)
  qed
  then show ?thesis by (simp add: list_all_iff)
qed

lemma parse_keywords_example:
  "parse_keywords ''Schlagworte: Philosophie, Ethik,  '' = [''Philosophie'', ''Ethik'']"
  by code_simp

text \<open>
  C6: for every text of the keyword block, the keywords are what the specification describes:
  the label \<open>Schlagworte:\<close> at the start is taken off, the rest is split on commas, every entry
  is trimmed and the empty entries are dropped. So every keyword is non-empty, has no white
  space at either end and contains no comma; and the text
  \<open>Schlagworte: Philosophie, Ethik,\<close> followed by two spaces gives exactly
  \<open>Philosophie\<close> and \<open>Ethik\<close>.
\<close>

theorem keyword_extraction:
  "parse_keywords text = keywords_spec text
   \<and> list_all (\<lambda>kw. kw \<noteq> [] \<and> strip kw = kw \<and> CHR '','' \<notin> set kw) (parse_keywords text)
   \<and> parse_keywords ''Schlagworte: Philosophie, Ethik,  '' = [''Philosophie'', ''Ethik'']"
  by (simp only: parse_keywords_refines [symmetric] parse_keywords_entries
      parse_keywords_example simp_thms)

section \<open>Requests and the trace\<close>

lemma requests_made_Get [simp]: "requests_made (t @ [Get u]) = Suc (requests_made t)"
  by (simp add: requests_made_def)

lemma requests_made_Sleep [simp]: "requests_made (t @ [Sleep d]) = requests_made t"
  by (simp add: requests_made_def)

lemma requests_made_Nil [simp]: "requests_made [] = 0"
  by (simp add: requests_made_def)

lemma requests_get_eq: "requests_get e t u = (http e (requests_made t) u, t @ [Get u])"
  by (simp add: requests_get_def)


section \<open>A limit of zero\<close>

lemma limit_reached_None: "limit_reached None books = False"
  by (simp add: limit_reached_def)

lemma limit_reached_zero: "limit_reached (Some 0) books = False"
  by (simp add: limit_reached_def)

lemma paginate_limit_zero:
  "paginate e (Some 0) cu imp ps st = paginate e None cu imp ps st"
proof (induction ps arbitrary: st)
  case Nil
  show ?case by simp
next
  case (Cons p ps)
  obtain b t where st: "st = (b, t)" by (cases st)
  show ?case unfolding st
    by (simp add: limit_reached_zero limit_reached_None Cons split: prod.splits sum.splits)
qed

lemma collect_imprint_limit_zero:
  "collect_imprint e (Some 0) imp st = collect_imprint e None imp st"
  by (simp add: collect_imprint_def limit_reached_zero limit_reached_None paginate_limit_zero Let_def
      split: prod.splits sum.splits)

lemma collect_loop_limit_zero:
  "collect_loop e (Some 0) imps st = collect_loop e None imps st"
proof (induction imps arbitrary: st)
  case Nil
  obtain b t where st: "st = (b, t)" by (cases st)
  show ?case unfolding st by (simp add: truthy_def)
next
  case (Cons imp imps)
  show ?case by (simp add: collect_imprint_limit_zero Cons split: flow.splits)
qed

lemma collect_urls_limit_zero:
  "collect_urls e imprints (Some 0) trace = collect_urls e imprints None trace"
  by (simp add: collect_urls_def collect_loop_limit_zero)

lemma ex_collect_limit_zero:
  "collect_urls ex_env (Some [''a'', ''b'', ''c'']) (Some 0) [] = Returned (ex_entries, ex_collect_trace)"
  by code_simp

text \<open>
  C9: with \<open>limit = 0\<close> the limit is ignored: \<open>collect_urls\<close> ends as it ends when no limit is
  given, with the same list and the same trace, or with the same exception. In the small
  catalog it returns all four URLs, not the empty list.
\<close>

theorem limit_zero_is_no_limit:
  "collect_urls e imprints (Some 0) trace = collect_urls e imprints None trace
   \<and> collect_urls ex_env (Some [''a'', ''b'', ''c'']) (Some 0) [] = Returned (ex_entries, ex_collect_trace)"
proof (rule conjI)
  show "collect_urls e imprints (Some 0) trace = collect_urls e imprints None trace"
    by (rule collect_urls_limit_zero)
  show "collect_urls ex_env (Some [''a'', ''b'', ''c'']) (Some 0) [] = Returned (ex_entries, ex_collect_trace)"
    by (rule ex_collect_limit_zero)
qed

section \<open>Requests that fail\<close>

lemma limit_reached_truthy: "limit_reached limit books \<Longrightarrow> truthy limit"
  by (simp add: limit_reached_def truthy_def split: option.splits)

lemma collect_imprint_failure:
  "http e (requests_made trace) (catalog_url_of imp) = Inl err \<Longrightarrow>
   collect_imprint e limit imp (all_books, trace) = Proceed (all_books, trace @ [Get (catalog_url_of imp)])"
  by (simp add: collect_imprint_def requests_get_eq)

lemma collect_loop_failure:
  "http e (requests_made trace) (catalog_url_of imp) = Inl err \<Longrightarrow>
   collect_loop e limit (imp # imps) (all_books, trace)
     = collect_loop e limit imps (all_books, trace @ [Get (catalog_url_of imp)])"
  by (simp add: collect_imprint_failure)

lemma collect_imprint_one_page:
  assumes "http e (requests_made trace) (catalog_url_of imp) = Inr body"
    and "html_parser e body = Some sp"
    and "extract_urls_from_page e sp imp = Inr urls"
    and "parse_total sp \<le> 24"
  shows "collect_imprint e limit imp (all_books, trace)
     = (if limit_reached limit (all_books @ urls)
        then Return (slice_to (all_books @ urls) limit, trace @ [Get (catalog_url_of imp)])
        else Proceed (all_books @ urls, trace @ [Get (catalog_url_of imp)]))"
  using assms by (simp add: collect_imprint_def requests_get_eq BeautifulSoup_def Let_def)

lemma collect_loop_one_page:
  assumes "http e (requests_made trace) (catalog_url_of imp) = Inr body"
    and "html_parser e body = Some sp"
    and "extract_urls_from_page e sp imp = Inr urls"
    and "parse_total sp \<le> 24"
  shows "collect_loop e limit [imp] (all_books, trace)
     = Returned (if truthy limit then slice_to (all_books @ urls) limit else all_books @ urls,
                 trace @ [Get (catalog_url_of imp)])"
proof (cases "limit_reached limit (all_books @ urls)")
  case True
  then have "truthy limit" by (rule limit_reached_truthy)
  with True show ?thesis by (simp add: collect_imprint_one_page [OF assms])
next
  case False
  then show ?thesis by (simp add: collect_imprint_one_page [OF assms])
qed

lemma paginate_failure:
  "\<not> limit_reached limit all_books \<Longrightarrow>
   http e (requests_made trace) (cu @ ''?p='' @ str_nat p) = Inl err \<Longrightarrow>
   paginate e limit cu imp (p # ps) (all_books, trace)
     = paginate e limit cu imp ps (all_books, trace @ [Sleep 1000, Get (cu @ ''?p='' @ str_nat p)])"
  by (simp add: requests_get_eq)

lemma paginate_success:
  "\<not> limit_reached limit all_books \<Longrightarrow>
   http e (requests_made trace) (cu @ ''?p='' @ str_nat p) = Inr body \<Longrightarrow>
   html_parser e body = Some sp \<Longrightarrow>
   extract_urls_from_page e sp imp = Inr urls \<Longrightarrow>
   paginate e limit cu imp (p # ps) (all_books, trace)
     = paginate e limit cu imp ps
         (all_books @ urls, trace @ [Sleep 1000, Get (cu @ ''?p='' @ str_nat p)])"
  by (simp add: requests_get_eq BeautifulSoup_def)

lemma scrape_loop_failure:
  "http e (requests_made trace) (url entry) = Inl err \<Longrightarrow>
   scrape_loop e n i (entry # rest) (results, trace)
     = scrape_loop e n (Suc i) rest (results, trace @ [Get (url entry)] @ pause_after n i)"
  by (simp add: requests_get_eq pause_after_def)

lemma detail_record_not_empty: "detail_record sp u imp = Some book \<Longrightarrow> book \<noteq> []"
  by (auto simp add: detail_record_def Let_def split: option.splits)

lemma scrape_loop_success:
  "http e (requests_made trace) (url entry) = Inr body \<Longrightarrow>
   html_parser e body = Some sp \<Longrightarrow>
   detail_record sp (url entry) (imprint entry) = Some book \<Longrightarrow>
   scrape_loop e n i (entry # rest) (results, trace)
     = scrape_loop e n (Suc i) rest (results @ [book], trace @ [Get (url entry)] @ pause_after n i)"
  by (frule detail_record_not_empty)
     (simp add: requests_get_eq pause_after_def parse_detail_page_def BeautifulSoup_def)

text \<open>
  C8: a request that fails is not fatal and is not repeated, and it costs exactly the unit of
  work it belongs to. When the request for the first page of an imprint fails, the imprint
  adds nothing: the list collected before is unchanged, the trace has grown by that one
  request, and the collector goes on with the next imprint, whose URLs come after the ones
  collected before. When the request for a later page fails, the page adds nothing, the trace
  has grown by the pause and the one request, and the pagination goes on with the next page.
  When the request for a detail page fails, the entry gives no record, the records made
  before are unchanged, and the scraper goes on with the next entry.
\<close>

theorem fetch_failure_skips_one_unit:
  "(http e (requests_made trace) (catalog_url_of imp) = Inl err \<longrightarrow>
      collect_imprint e limit imp (all_books, trace)
        = Proceed (all_books, trace @ [Get (catalog_url_of imp)])
      \<and> collect_loop e limit (imp # imps) (all_books, trace)
        = collect_loop e limit imps (all_books, trace @ [Get (catalog_url_of imp)])
      \<and> collect_loop e limit [imp] (all_books, trace)
        = Returned (if truthy limit then slice_to all_books limit else all_books,
                    trace @ [Get (catalog_url_of imp)])
      \<and> (http e (Suc (requests_made trace)) (catalog_url_of imp2) = Inr body2
           \<and> html_parser e body2 = Some sp2
           \<and> extract_urls_from_page e sp2 imp2 = Inr urls2
           \<and> parse_total sp2 \<le> 24 \<longrightarrow>
         collect_loop e limit [imp, imp2] (all_books, trace)
           = Returned (if truthy limit then slice_to (all_books @ urls2) limit
                       else all_books @ urls2,
                       trace @ [Get (catalog_url_of imp), Get (catalog_url_of imp2)])))
   \<and> (\<not> limit_reached limit all_books
        \<and> http e (requests_made trace) (page_url_of cu p) = Inl err \<longrightarrow>
      paginate e limit cu imp (p # ps) (all_books, trace)
        = paginate e limit cu imp ps (all_books, trace @ [Sleep 1000, Get (page_url_of cu p)])
      \<and> paginate e limit cu imp [p] (all_books, trace)
        = Proceed (all_books, trace @ [Sleep 1000, Get (page_url_of cu p)])
      \<and> (http e (Suc (requests_made trace)) (page_url_of cu p2) = Inr body2
           \<and> html_parser e body2 = Some sp2
           \<and> extract_urls_from_page e sp2 imp = Inr urls2 \<longrightarrow>
         paginate e limit cu imp [p, p2] (all_books, trace)
           = Proceed (all_books @ urls2,
                      trace @ [Sleep 1000, Get (page_url_of cu p),
                               Sleep 1000, Get (page_url_of cu p2)])))
   \<and> (http e (requests_made trace) (url entry) = Inl err \<longrightarrow>
      scrape_loop e n i (entry # rest) (results, trace)
        = scrape_loop e n (Suc i) rest (results, trace @ [Get (url entry)] @ pause_after n i)
      \<and> scrape_loop e n i [entry] (results, trace)
        = Returned (results, trace @ [Get (url entry)] @ pause_after n i)
      \<and> (http e (Suc (requests_made trace)) (url entry2) = Inr body2
           \<and> html_parser e body2 = Some sp2
           \<and> detail_record sp2 (url entry2) (imprint entry2) = Some book2 \<longrightarrow>
         scrape_loop e n i [entry, entry2] (results, trace)
           = Returned (results @ [book2],
                       trace @ [Get (url entry)] @ pause_after n i
                         @ [Get (url entry2)] @ pause_after n (Suc i))))"
proof (intro conjI impI)
  assume f: "http e (requests_made trace) (catalog_url_of imp) = Inl err"
  show "collect_imprint e limit imp (all_books, trace)
        = Proceed (all_books, trace @ [Get (catalog_url_of imp)])"
    using f by (rule collect_imprint_failure)
  show "collect_loop e limit (imp # imps) (all_books, trace)
        = collect_loop e limit imps (all_books, trace @ [Get (catalog_url_of imp)])"
    using f by (rule collect_loop_failure)
  show "collect_loop e limit [imp] (all_books, trace)
        = Returned (if truthy limit then slice_to all_books limit else all_books,
                    trace @ [Get (catalog_url_of imp)])"
    unfolding collect_loop_failure [OF f] by simp
  assume s: "http e (Suc (requests_made trace)) (catalog_url_of imp2) = Inr body2
           \<and> html_parser e body2 = Some sp2
           \<and> extract_urls_from_page e sp2 imp2 = Inr urls2
           \<and> parse_total sp2 \<le> 24"
  from s have g: "http e (requests_made (trace @ [Get (catalog_url_of imp)])) (catalog_url_of imp2)
      = Inr body2" by simp
  from s have s2: "html_parser e body2 = Some sp2"
    and s3: "extract_urls_from_page e sp2 imp2 = Inr urls2" and s4: "parse_total sp2 \<le> 24"
    by blast+
  have "collect_loop e limit [imp2] (all_books, trace @ [Get (catalog_url_of imp)])
     = Returned (if truthy limit then slice_to (all_books @ urls2) limit else all_books @ urls2,
                 (trace @ [Get (catalog_url_of imp)]) @ [Get (catalog_url_of imp2)])"
    by (rule collect_loop_one_page [OF g s2 s3 s4])
  then show "collect_loop e limit [imp, imp2] (all_books, trace)
           = Returned (if truthy limit then slice_to (all_books @ urls2) limit
                       else all_books @ urls2,
                       trace @ [Get (catalog_url_of imp), Get (catalog_url_of imp2)])"
    unfolding collect_loop_failure [OF f] by simp
next
  assume a: "\<not> limit_reached limit all_books
        \<and> http e (requests_made trace) (page_url_of cu p) = Inl err"
  then have n: "\<not> limit_reached limit all_books"
    and f: "http e (requests_made trace) (cu @ ''?p='' @ str_nat p) = Inl err"
    by (simp_all add: page_url_of_def)
  show 1: "paginate e limit cu imp (p # ps) (all_books, trace)
        = paginate e limit cu imp ps (all_books, trace @ [Sleep 1000, Get (page_url_of cu p)])"
    unfolding page_url_of_def using n f by (rule paginate_failure)
  show "paginate e limit cu imp [p] (all_books, trace)
        = Proceed (all_books, trace @ [Sleep 1000, Get (page_url_of cu p)])"
    unfolding page_url_of_def paginate_failure [OF n f] by simp
  assume s: "http e (Suc (requests_made trace)) (page_url_of cu p2) = Inr body2
           \<and> html_parser e body2 = Some sp2
           \<and> extract_urls_from_page e sp2 imp = Inr urls2"
  from s have g: "http e (requests_made (trace @ [Sleep 1000, Get (cu @ ''?p='' @ str_nat p)]))
      (cu @ ''?p='' @ str_nat p2) = Inr body2"
    by (simp add: page_url_of_def requests_made_def)
  from s have s2: "html_parser e body2 = Some sp2"
    and s3: "extract_urls_from_page e sp2 imp = Inr urls2"
    by blast+
  have "paginate e limit cu imp [p2] (all_books, trace @ [Sleep 1000, Get (cu @ ''?p='' @ str_nat p)])
     = paginate e limit cu imp []
         (all_books @ urls2, (trace @ [Sleep 1000, Get (cu @ ''?p='' @ str_nat p)])
            @ [Sleep 1000, Get (cu @ ''?p='' @ str_nat p2)])"
    by (rule paginate_success [OF n g s2 s3])
  then show "paginate e limit cu imp [p, p2] (all_books, trace)
           = Proceed (all_books @ urls2,
                      trace @ [Sleep 1000, Get (page_url_of cu p),
                               Sleep 1000, Get (page_url_of cu p2)])"
    unfolding page_url_of_def paginate_failure [OF n f] by simp
next
  assume f: "http e (requests_made trace) (url entry) = Inl err"
  show "scrape_loop e n i (entry # rest) (results, trace)
        = scrape_loop e n (Suc i) rest (results, trace @ [Get (url entry)] @ pause_after n i)"
    using f by (rule scrape_loop_failure)
  show "scrape_loop e n i [entry] (results, trace)
        = Returned (results, trace @ [Get (url entry)] @ pause_after n i)"
    unfolding scrape_loop_failure [OF f] by simp
  assume s: "http e (Suc (requests_made trace)) (url entry2) = Inr body2
           \<and> html_parser e body2 = Some sp2
           \<and> detail_record sp2 (url entry2) (imprint entry2) = Some book2"
  have r: "requests_made (trace @ [Get (url entry)] @ pause_after n i) = Suc (requests_made trace)"
    by (simp add: requests_made_def pause_after_def)
  from s have g: "http e (requests_made (trace @ [Get (url entry)] @ pause_after n i)) (url entry2)
      = Inr body2" unfolding r by simp
  from s have s2: "html_parser e body2 = Some sp2"
    and s3: "detail_record sp2 (url entry2) (imprint entry2) = Some book2"
    by blast+
  have "scrape_loop e n (Suc i) [entry2] (results, trace @ [Get (url entry)] @ pause_after n i)
     = scrape_loop e n (Suc (Suc i)) []
         (results @ [book2], (trace @ [Get (url entry)] @ pause_after n i)
            @ [Get (url entry2)] @ pause_after n (Suc i))"
    by (rule scrape_loop_success [OF g s2 s3])
  then show "scrape_loop e n i [entry, entry2] (results, trace)
           = Returned (results @ [book2],
                       trace @ [Get (url entry)] @ pause_after n i
                         @ [Get (url entry2)] @ pause_after n (Suc i))"
    unfolding scrape_loop_failure [OF f] by simp
qed

lemma ex_fail_b:
  "http ex_env (requests_made [Sleep 1000]) (catalog_url_of ''b'') = Inl (HTTPError 500)
   \<and> http ex_env (Suc (requests_made [Sleep 1000])) (catalog_url_of ''c'') = Inr ''c0''
   \<and> html_parser ex_env ''c0'' = Some ex_page_c0
   \<and> extract_urls_from_page ex_env ex_page_c0 ''c'' = Inr [ex_entries ! 3]
   \<and> parse_total ex_page_c0 \<le> 24"
  by code_simp

lemma ex_fail_p2:
  "\<not> limit_reached (Some 5) [ex_entries ! 0]
   \<and> http ex_env (requests_made [Sleep 1000]) (page_url_of (catalog_url_of ''a'') 2) = Inl Timeout
   \<and> http ex_env (Suc (requests_made [Sleep 1000])) (page_url_of (catalog_url_of ''a'') 3) = Inr ''a1''
   \<and> html_parser ex_env ''a1'' = Some ex_page_a1
   \<and> extract_urls_from_page ex_env ex_page_a1 ''a'' = Inr [ex_entries ! 2]"
  by code_simp

lemma ex_fail_d2:
  "http ex_env (requests_made [Sleep 1000]) (url (ex_entries ! 1)) = Inl (HTTPError 500)
   \<and> http ex_env (Suc (requests_made [Sleep 1000])) (url (ex_entries ! 0)) = Inr ''d1''
   \<and> html_parser ex_env ''d1'' = Some ex_detail_1
   \<and> detail_record ex_detail_1 (url (ex_entries ! 0)) (imprint (ex_entries ! 0)) = Some ex_book_1"
  by code_simp

lemma ex_fail_shape:
  "truthy (Some 5) \<and> slice_to [ex_entries ! 0] (Some 5) = [ex_entries ! 0]
   \<and> slice_to ([ex_entries ! 0] @ [ex_entries ! 3]) (Some 5) = [ex_entries ! 0, ex_entries ! 3]
   \<and> pause_after 4 1 = [Sleep 500] \<and> pause_after 4 (Suc 1) = [Sleep 500]"
  by code_simp

theorem fetch_failure_witness:
  "http ex_env (requests_made [Sleep 1000]) (catalog_url_of ''b'') = Inl (HTTPError 500)
   \<and> collect_imprint ex_env (Some 5) ''b'' ([ex_entries ! 0], [Sleep 1000])
       = Proceed ([ex_entries ! 0], [Sleep 1000, Get (catalog_url_of ''b'')])
   \<and> collect_loop ex_env (Some 5) [''b''] ([ex_entries ! 0], [Sleep 1000])
       = Returned ([ex_entries ! 0], [Sleep 1000, Get (catalog_url_of ''b'')])
   \<and> collect_loop ex_env (Some 5) [''b'', ''c''] ([ex_entries ! 0], [Sleep 1000])
       = Returned ([ex_entries ! 0, ex_entries ! 3],
                   [Sleep 1000, Get (catalog_url_of ''b''), Get (catalog_url_of ''c'')])
   \<and> http ex_env (requests_made [Sleep 1000]) (page_url_of (catalog_url_of ''a'') 2) = Inl Timeout
   \<and> paginate ex_env (Some 5) (catalog_url_of ''a'') ''a'' [2] ([ex_entries ! 0], [Sleep 1000])
       = Proceed ([ex_entries ! 0],
                  [Sleep 1000, Sleep 1000, Get (page_url_of (catalog_url_of ''a'') 2)])
   \<and> paginate ex_env (Some 5) (catalog_url_of ''a'') ''a'' [2, 3] ([ex_entries ! 0], [Sleep 1000])
       = Proceed ([ex_entries ! 0, ex_entries ! 2],
                  [Sleep 1000, Sleep 1000, Get (page_url_of (catalog_url_of ''a'') 2),
                   Sleep 1000, Get (page_url_of (catalog_url_of ''a'') 3)])
   \<and> http ex_env (requests_made [Sleep 1000]) (url (ex_entries ! 1)) = Inl (HTTPError 500)
   \<and> scrape_loop ex_env 4 1 [ex_entries ! 1] ([ex_book_1], [Sleep 1000])
       = Returned ([ex_book_1], [Sleep 1000, Get (url (ex_entries ! 1)), Sleep 500])
   \<and> scrape_loop ex_env 4 1 [ex_entries ! 1, ex_entries ! 0] ([ex_book_1], [Sleep 1000])
       = Returned ([ex_book_1, ex_book_1],
                   [Sleep 1000, Get (url (ex_entries ! 1)), Sleep 500,
                    Get (url (ex_entries ! 0)), Sleep 500])"
proof -
  note a = fetch_failure_skips_one_unit [where e = ex_env and trace = "[Sleep 1000]"
      and imp = "''b''" and err = "HTTPError 500" and limit = "Some 5" and imps = "[]"
      and all_books = "[ex_entries ! 0]" and ?imp2.0 = "''c''" and ?body2.0 = "''c0''"
      and ?sp2.0 = ex_page_c0 and ?urls2.0 = "[ex_entries ! 3]"]
  note b = fetch_failure_skips_one_unit [where e = ex_env and trace = "[Sleep 1000]"
      and err = Timeout and limit = "Some 5" and all_books = "[ex_entries ! 0]"
      and cu = "catalog_url_of ''a''" and p = 2 and ?p2.0 = 3 and imp = "''a''" and ps = "[]"
      and ?body2.0 = "''a1''" and ?sp2.0 = ex_page_a1 and ?urls2.0 = "[ex_entries ! 2]"]
  note c = fetch_failure_skips_one_unit [where e = ex_env and trace = "[Sleep 1000]"
      and err = "HTTPError 500" and entry = "ex_entries ! 1" and n = 4 and i = 1
      and rest = "[]" and results = "[ex_book_1]" and ?entry2.0 = "ex_entries ! 0"
      and ?body2.0 = "''d1''" and ?sp2.0 = ex_detail_1 and ?book2.0 = ex_book_1]
  note del = collect_loop.simps paginate.simps scrape_loop.simps
  from ex_fail_b
  have ha: "http ex_env (requests_made [Sleep 1000]) (catalog_url_of ''b'') = Inl (HTTPError 500)"
    and hs: "http ex_env (Suc (requests_made [Sleep 1000])) (catalog_url_of ''c'') = Inr ''c0''
       \<and> html_parser ex_env ''c0'' = Some ex_page_c0
       \<and> extract_urls_from_page ex_env ex_page_c0 ''c'' = Inr [ex_entries ! 3]
       \<and> parse_total ex_page_c0 \<le> 24"
    by blast+
  note a' = a [THEN conjunct1, THEN mp, OF ha]
  have 1: "collect_imprint ex_env (Some 5) ''b'' ([ex_entries ! 0], [Sleep 1000])
       = Proceed ([ex_entries ! 0], [Sleep 1000, Get (catalog_url_of ''b'')])"
    using a' [THEN conjunct1] by simp
  have 2: "collect_loop ex_env (Some 5) [''b''] ([ex_entries ! 0], [Sleep 1000])
       = Returned ([ex_entries ! 0], [Sleep 1000, Get (catalog_url_of ''b'')])"
    using a' [THEN conjunct2, THEN conjunct2, THEN conjunct1] ex_fail_shape
    by (simp del: del)
  have 3: "collect_loop ex_env (Some 5) [''b'', ''c''] ([ex_entries ! 0], [Sleep 1000])
       = Returned ([ex_entries ! 0, ex_entries ! 3],
                   [Sleep 1000, Get (catalog_url_of ''b''), Get (catalog_url_of ''c'')])"
    using a' [THEN conjunct2, THEN conjunct2, THEN conjunct2, THEN mp, OF hs] ex_fail_shape
    by (simp del: del)
  from ex_fail_p2
  have hb: "\<not> limit_reached (Some 5) [ex_entries ! 0]
       \<and> http ex_env (requests_made [Sleep 1000]) (page_url_of (catalog_url_of ''a'') 2) = Inl Timeout"
    and ht: "http ex_env (Suc (requests_made [Sleep 1000])) (page_url_of (catalog_url_of ''a'') 3) = Inr ''a1''
       \<and> html_parser ex_env ''a1'' = Some ex_page_a1
       \<and> extract_urls_from_page ex_env ex_page_a1 ''a'' = Inr [ex_entries ! 2]"
    by blast+
  note b' = b [THEN conjunct2, THEN conjunct1, THEN mp, OF hb]
  have 4: "paginate ex_env (Some 5) (catalog_url_of ''a'') ''a'' [2] ([ex_entries ! 0], [Sleep 1000])
       = Proceed ([ex_entries ! 0],
                  [Sleep 1000, Sleep 1000, Get (page_url_of (catalog_url_of ''a'') 2)])"
    using b' [THEN conjunct2, THEN conjunct1] by (simp del: del)
  have 5: "paginate ex_env (Some 5) (catalog_url_of ''a'') ''a'' [2, 3] ([ex_entries ! 0], [Sleep 1000])
       = Proceed ([ex_entries ! 0, ex_entries ! 2],
                  [Sleep 1000, Sleep 1000, Get (page_url_of (catalog_url_of ''a'') 2),
                   Sleep 1000, Get (page_url_of (catalog_url_of ''a'') 3)])"
    using b' [THEN conjunct2, THEN conjunct2, THEN mp, OF ht] by (simp del: del)
  from ex_fail_d2
  have hc: "http ex_env (requests_made [Sleep 1000]) (url (ex_entries ! 1)) = Inl (HTTPError 500)"
    and hu: "http ex_env (Suc (requests_made [Sleep 1000])) (url (ex_entries ! 0)) = Inr ''d1''
       \<and> html_parser ex_env ''d1'' = Some ex_detail_1
       \<and> detail_record ex_detail_1 (url (ex_entries ! 0)) (imprint (ex_entries ! 0)) = Some ex_book_1"
    by blast+
  note c' = c [THEN conjunct2, THEN conjunct2, THEN mp, OF hc]
  from ex_fail_shape have pa: "pause_after 4 1 = [Sleep 500]" "pause_after 4 (Suc 1) = [Sleep 500]"
    by blast+
  have 6: "scrape_loop ex_env 4 1 [ex_entries ! 1] ([ex_book_1], [Sleep 1000])
       = Returned ([ex_book_1], [Sleep 1000, Get (url (ex_entries ! 1)), Sleep 500])"
    using c' [THEN conjunct2, THEN conjunct1] unfolding pa by (simp del: del)
  have 7: "scrape_loop ex_env 4 1 [ex_entries ! 1, ex_entries ! 0] ([ex_book_1], [Sleep 1000])
       = Returned ([ex_book_1, ex_book_1],
                   [Sleep 1000, Get (url (ex_entries ! 1)), Sleep 500,
                    Get (url (ex_entries ! 0)), Sleep 500])"
    using c' [THEN conjunct2, THEN conjunct2, THEN mp, OF hu] unfolding pa by (simp del: del)
  from 1 2 3 4 5 6 7 ha hb hc show ?thesis by blast
qed

section \<open>The pager\<close>

lemma search_count_None: "no_digit s \<Longrightarrow> search_count s = None"
proof -
  assume "no_digit s"
  then have "\<forall>c\<in>set s. \<not> py_isdigit c" by (simp add: no_digit_def list_all_iff)
  then have d: "dropWhile (\<lambda>c. \<not> py_isdigit c) s = []" by simp
  show ?thesis unfolding search_count_def d by simp
qed

lemma parse_total_no_pager: "select_one pager_sel sp = None \<Longrightarrow> parse_total sp = 0"
  by (simp add: parse_total_def)

lemma parse_total_no_number:
  "select_one pager_sel sp = Some pager \<Longrightarrow> no_digit (get_text_plain pager) \<Longrightarrow> parse_total sp = 0"
  by (simp add: parse_total_def search_count_None)

lemma collect_imprint_success:
  "http e (requests_made trace) (catalog_url_of imp) = Inr body \<Longrightarrow>
   html_parser e body = Some sp \<Longrightarrow>
   collect_imprint e limit imp (all_books, trace) =
     (let trace' = trace @ [Get (catalog_url_of imp)] in
      case extract_urls_from_page e sp imp of
        Inl x \<Rightarrow> Raise x trace'
      | Inr urls \<Rightarrow>
          (let all_books' = all_books @ urls
           in if limit_reached limit all_books' then Return (slice_to all_books' limit, trace')
              else if 24 < parse_total sp
                then paginate e limit (catalog_url_of imp) imp [1 ..< (parse_total sp + 23) div 24]
                       (all_books', trace')
                else Proceed (all_books', trace')))"
  by (simp add: collect_imprint_def requests_get_eq BeautifulSoup_def Let_def split: sum.splits)

lemma collect_imprint_single_page:
  "http e (requests_made trace) (catalog_url_of imp) = Inr body \<Longrightarrow>
   html_parser e body = Some sp \<Longrightarrow>
   parse_total sp \<le> 24 \<Longrightarrow>
   collect_imprint e limit imp (all_books, trace) =
     (let trace' = trace @ [Get (catalog_url_of imp)] in
      case extract_urls_from_page e sp imp of
        Inl x \<Rightarrow> Raise x trace'
      | Inr urls \<Rightarrow>
          (let all_books' = all_books @ urls
           in if limit_reached limit all_books' then Return (slice_to all_books' limit, trace')
              else Proceed (all_books', trace')))"
  by (simp add: collect_imprint_success Let_def split: sum.splits)

lemma flow_trace_single_page:
  "http e (requests_made trace) (catalog_url_of imp) = Inr body \<Longrightarrow>
   html_parser e body = Some sp \<Longrightarrow>
   parse_total sp \<le> 24 \<Longrightarrow>
   flow_trace (collect_imprint e limit imp (all_books, trace)) = trace @ [Get (catalog_url_of imp)]"
  by (simp add: collect_imprint_single_page Let_def split: sum.splits)

text \<open>
  C7: when the first page of an imprint has no pager element, or the text of the pager has no
  digit in it, the total is 0 and no further page is requested: the imprint costs the one
  request for its first page, and the URLs of that page are added to the list (which is cut
  to the limit if the limit is reached with them). The page is the one the parser made of the
  response; when \<open>urljoin\<close> rejects one of its links the call ends there, and also then the
  one request is all that was sent.
\<close>

theorem no_pager_no_pagination:
  assumes "http e (requests_made trace) (catalog_url_of imp) = Inr body"
    and "html_parser e body = Some sp"
    and "select_one pager_sel sp = None
         \<or> (\<exists>pager. select_one pager_sel sp = Some pager \<and> no_digit (get_text_plain pager))"
  shows "parse_total sp = 0
     \<and> collect_imprint e limit imp (all_books, trace) =
         (let trace' = trace @ [Get (catalog_url_of imp)] in
          case extract_urls_from_page e sp imp of
            Inl x \<Rightarrow> Raise x trace'
          | Inr urls \<Rightarrow>
              (let all_books' = all_books @ urls
               in if limit_reached limit all_books' then Return (slice_to all_books' limit, trace')
                  else Proceed (all_books', trace')))
     \<and> flow_trace (collect_imprint e limit imp (all_books, trace))
         = trace @ [Get (catalog_url_of imp)]"
proof -
  from assms(3) have z: "parse_total sp = 0"
    using parse_total_no_pager parse_total_no_number by blast
  then have le: "parse_total sp \<le> 24" by simp
  from collect_imprint_single_page [OF assms(1) assms(2) le]
    flow_trace_single_page [OF assms(1) assms(2) le] z
  show ?thesis by blast
qed

lemma ex_c0: "http ex_env (requests_made [Sleep 1000]) (catalog_url_of ''c'') = Inr ''c0''
   \<and> html_parser ex_env ''c0'' = Some ex_page_c0
   \<and> select_one pager_sel ex_page_c0 = None"
  by code_simp

lemma ex_c0_urls: "extract_urls_from_page ex_env ex_page_c0 ''c'' = Inr [ex_entries ! 3]"
  by code_simp

lemma ex_c0_cu: "catalog_url_of ''c'' = ''https://www.matthes-seitz-berlin.de/c/lieferbar.html''"
  by code_simp

theorem no_pager_witness:
  "http ex_env (requests_made [Sleep 1000]) (catalog_url_of ''c'') = Inr ''c0''
   \<and> html_parser ex_env ''c0'' = Some ex_page_c0
   \<and> select_one pager_sel ex_page_c0 = None
   \<and> parse_total ex_page_c0 = 0
   \<and> collect_imprint ex_env None ''c'' ([ex_entries ! 0], [Sleep 1000]) =
        Proceed ([ex_entries ! 0, ex_entries ! 3],
                 [Sleep 1000, Get ''https://www.matthes-seitz-berlin.de/c/lieferbar.html''])"
proof -
  from ex_c0 have a: "http ex_env (requests_made [Sleep 1000]) (catalog_url_of ''c'') = Inr ''c0''"
    and p: "html_parser ex_env ''c0'' = Some ex_page_c0"
    and b: "select_one pager_sel ex_page_c0 = None" by blast+
  from b have b': "select_one pager_sel ex_page_c0 = None
         \<or> (\<exists>pager. select_one pager_sel ex_page_c0 = Some pager
                     \<and> no_digit (get_text_plain pager))" by blast
  note t = no_pager_no_pagination [OF a p b', of None "[ex_entries ! 0]"]
  from t have 1: "parse_total ex_page_c0 = 0" by blast
  from t [THEN conjunct2, THEN conjunct1]
  have 2: "collect_imprint ex_env None ''c'' ([ex_entries ! 0], [Sleep 1000]) =
        Proceed ([ex_entries ! 0, ex_entries ! 3],
                 [Sleep 1000, Get ''https://www.matthes-seitz-berlin.de/c/lieferbar.html''])"
    by (simp add: ex_c0_urls ex_c0_cu limit_reached_None Let_def)
  from a p b 1 2 show ?thesis by blast
qed

section \<open>Pagination\<close>

lemma ceil24: "(n + 23) div 24 = nat \<lceil>real n / 24\<rceil>"
  by linarith

lemma requests_made_append: "requests_made (s @ t) = requests_made s + requests_made t"
  by (simp add: requests_made_def)

lemma requests_made_page_events: "requests_made (page_events cu ps) = length ps"
  by (induction ps) (simp_all add: page_events_def requests_made_def)

lemma page_events_Cons:
  "page_events cu (p # ps) = [Sleep 1000, Get (cu @ ''?p='' @ str_nat p)] @ page_events cu ps"
  by (simp add: page_events_def)

lemma page_events_Nil: "page_events cu [] = []"
  by (simp add: page_events_def)

lemma requests_made_Cons_Get: "requests_made (Get u # t) = Suc (requests_made t)"
  by (simp add: requests_made_def)

lemma requests_made_Cons_Sleep: "requests_made (Sleep d # t) = requests_made t"
  by (simp add: requests_made_def)

lemma requests_made_page: "requests_made (t @ [Sleep 1000, Get u]) = Suc (requests_made t)"
  by (simp add: requests_made_def)

text \<open>One step of the page loop, by what the request and the parser give.\<close>

lemma paginate_step:
  "paginate e limit cu imp (p # ps) (b, t) =
     (if limit_reached limit b then Return (slice_to b limit, t)
      else (case http e (requests_made t) (cu @ ''?p='' @ str_nat p) of
              Inl err \<Rightarrow> paginate e limit cu imp ps (b, t @ [Sleep 1000, Get (cu @ ''?p='' @ str_nat p)])
            | Inr body \<Rightarrow>
                (case html_parser e body of
                   None \<Rightarrow> Raise ParserRejectedMarkup (t @ [Sleep 1000, Get (cu @ ''?p='' @ str_nat p)])
                 | Some sp \<Rightarrow>
                     (case extract_urls_from_page e sp imp of
                        Inl x \<Rightarrow> Raise x (t @ [Sleep 1000, Get (cu @ ''?p='' @ str_nat p)])
                      | Inr urls \<Rightarrow>
                          paginate e limit cu imp ps
                            (b @ urls, t @ [Sleep 1000, Get (cu @ ''?p='' @ str_nat p)])))))"
  by (simp add: requests_get_eq BeautifulSoup_def split: sum.splits option.splits)

lemma paginate_Proceed_trace:
  "paginate e limit cu imp ps (b, t) = Proceed (b', t') \<Longrightarrow> t' = t @ page_events cu ps"
proof (induction ps arbitrary: b t)
  case Nil
  then show ?case by (simp add: page_events_def)
next
  case (Cons p ps)
  let ?t = "t @ [Sleep 1000, Get (cu @ ''?p='' @ str_nat p)]"
  from Cons.prems have "\<exists>b''. paginate e limit cu imp ps (b'', ?t) = Proceed (b', t')"
    unfolding paginate_step by (auto split: if_splits sum.splits option.splits)
  then obtain b'' where "paginate e limit cu imp ps (b'', ?t) = Proceed (b', t')" ..
  from Cons.IH [OF this] show ?case by (simp add: page_events_Cons)
qed

text \<open>However the page loop ends, it has requested an initial segment of its pages.\<close>

lemma paginate_trace_prefix:
  "\<exists>m\<le>length ps. flow_trace (paginate e limit cu imp ps (b, t)) = t @ page_events cu (take m ps)"
proof (induction ps arbitrary: b t)
  case Nil
  show ?case by (simp add: page_events_def)
next
  case (Cons p ps)
  let ?t = "t @ [Sleep 1000, Get (cu @ ''?p='' @ str_nat p)]"
  have zero: "t = t @ page_events cu (take 0 (p # ps))" by (simp add: page_events_def)
  have one: "?t = t @ page_events cu (take (Suc 0) (p # ps))" by (simp add: page_events_def)
  have rec: "\<exists>m\<le>length (p # ps).
      flow_trace (paginate e limit cu imp ps (b'', ?t)) = t @ page_events cu (take m (p # ps))" for b''
  proof -
    from Cons.IH [of b'' ?t] obtain m where m: "m \<le> length ps"
      and f: "flow_trace (paginate e limit cu imp ps (b'', ?t)) = ?t @ page_events cu (take m ps)"
      by blast
    from f have "flow_trace (paginate e limit cu imp ps (b'', ?t))
        = t @ page_events cu (take (Suc m) (p # ps))"
      by (simp add: page_events_Cons)
    with m show ?thesis by (intro exI [of _ "Suc m"]) simp
  qed
  show ?case
  proof (cases "limit_reached limit b")
    case True
    then have "flow_trace (paginate e limit cu imp (p # ps) (b, t)) = t"
      unfolding paginate_step by simp
    with zero show ?thesis by (intro exI [of _ 0]) simp
  next
    case nr: False
    show ?thesis
    proof (cases "http e (requests_made t) (cu @ ''?p='' @ str_nat p)")
      case (Inl err)
      with nr have "paginate e limit cu imp (p # ps) (b, t) = paginate e limit cu imp ps (b, ?t)"
        unfolding paginate_step by simp
      with rec [of b] show ?thesis by simp
    next
      case (Inr body)
      show ?thesis
      proof (cases "html_parser e body")
        case None
        with nr Inr have "flow_trace (paginate e limit cu imp (p # ps) (b, t)) = ?t"
          unfolding paginate_step by simp
        with one show ?thesis by (intro exI [of _ "Suc 0"]) simp
      next
        case (Some sp)
        show ?thesis
        proof (cases "extract_urls_from_page e sp imp")
          case (Inl x)
          with nr Inr Some have "flow_trace (paginate e limit cu imp (p # ps) (b, t)) = ?t"
            unfolding paginate_step by simp
          with one show ?thesis by (intro exI [of _ "Suc 0"]) simp
        next
          case urls: (Inr urls)
          with nr Inr Some have "paginate e limit cu imp (p # ps) (b, t)
              = paginate e limit cu imp ps (b @ urls, ?t)"
            unfolding paginate_step by simp
          with rec [of "b @ urls"] show ?thesis by simp
        qed
      qed
    qed
  qed
qed

text \<open>Without a limit, and when no page ends the call, the page loop requests every page.\<close>

lemma paginate_all_pages:
  "list_all (page_accepted e imp)
     (zip [requests_made t ..< requests_made t + length ps] (map (page_url_of cu) ps)) \<Longrightarrow>
   \<exists>b'. paginate e None cu imp ps (b, t) = Proceed (b', t @ page_events cu ps)"
proof (induction ps arbitrary: b t)
  case Nil
  show ?case by (simp add: page_events_def)
next
  case (Cons p ps)
  let ?u = "cu @ ''?p='' @ str_nat p"
  let ?t = "t @ [Sleep 1000, Get ?u]"
  have up: "[requests_made t ..< requests_made t + length (p # ps)]
      = requests_made t # [requests_made ?t ..< requests_made ?t + length ps]"
    by (simp add: requests_made_page upt_rec)
  from Cons.prems have acc': "page_accepted e imp (requests_made t, page_url_of cu p)"
    and rest: "list_all (page_accepted e imp)
        (zip [requests_made ?t ..< requests_made ?t + length ps] (map (page_url_of cu) ps))"
    unfolding up by simp_all
  from acc' have acc: "page_accepted e imp (requests_made t, ?u)" by (simp add: page_url_of_def)
  have rec: "\<exists>b'. paginate e None cu imp ps (b'', ?t) = Proceed (b', t @ page_events cu (p # ps))" for b''
    using Cons.IH [OF rest, of b''] by (simp add: page_events_Cons)
  show ?case
  proof (cases "http e (requests_made t) ?u")
    case (Inl err)
    then have "paginate e None cu imp (p # ps) (b, t) = paginate e None cu imp ps (b, ?t)"
      unfolding paginate_step by (simp add: limit_reached_None)
    with rec [of b] show ?thesis by simp
  next
    case (Inr body)
    with acc obtain sp urls where sp: "html_parser e body = Some sp"
      and urls: "extract_urls_from_page e sp imp = Inr urls"
      by (auto simp add: page_accepted_def split: option.splits sum.splits)
    with Inr have "paginate e None cu imp (p # ps) (b, t) = paginate e None cu imp ps (b @ urls, ?t)"
      unfolding paginate_step by (simp add: limit_reached_None)
    with rec [of "b @ urls"] show ?thesis by simp
  qed
qed

lemma take_upt_one: "m \<le> k - 1 \<Longrightarrow> take m [1 ..< k] = [1 ..< Suc m]"
  by simp

text \<open>
  C3: for the total parsed from the pager of a first page that was fetched, parsed and read:
  if the total is at most 24, the imprint costs its one request and no further page is
  requested. If the total exceeds 24, the further requests are for the pages with the indices
  1, 2, ... as \<open>?p=\<close>, each after a pause of one second, and never for an index above
  \<open>ceil(total / 24) - 1\<close>; when the loop over the pages runs to its end there are exactly
  \<open>ceil(total / 24) - 1\<close> of them, with the indices 1 to \<open>ceil(total / 24) - 1\<close>; and it runs to
  its end when no limit is given and no page ends the call with an exception.
\<close>

theorem pagination_fetches:
  assumes "http e (requests_made trace) (catalog_url_of imp) = Inr body"
    and "html_parser e body = Some sp"
    and "extract_urls_from_page e sp imp = Inr urls"
  shows "(parse_total sp \<le> 24 \<longrightarrow>
           flow_trace (collect_imprint e limit imp (all_books, trace))
             = trace @ [Get (catalog_url_of imp)])
     \<and> (24 < parse_total sp \<longrightarrow>
           (\<exists>m < nat \<lceil>real (parse_total sp) / 24\<rceil>.
              flow_trace (collect_imprint e limit imp (all_books, trace))
                = trace @ [Get (catalog_url_of imp)]
                    @ page_events (catalog_url_of imp) [1 ..< Suc m]))
     \<and> (24 < parse_total sp
         \<and> collect_imprint e limit imp (all_books, trace) = Proceed (books', trace') \<longrightarrow>
           trace' = trace @ [Get (catalog_url_of imp)]
                      @ page_events (catalog_url_of imp) [1 ..< nat \<lceil>real (parse_total sp) / 24\<rceil>]
           \<and> requests_made trace'
               = requests_made trace + 1 + (nat \<lceil>real (parse_total sp) / 24\<rceil> - 1))
     \<and> (24 < parse_total sp
         \<and> list_all (page_accepted e imp)
             (zip [Suc (requests_made trace) ..< requests_made trace + nat \<lceil>real (parse_total sp) / 24\<rceil>]
                  (map (page_url_of (catalog_url_of imp)) [1 ..< nat \<lceil>real (parse_total sp) / 24\<rceil>])) \<longrightarrow>
           (\<exists>books''. collect_imprint e None imp (all_books, trace)
              = Proceed (books'',
                  trace @ [Get (catalog_url_of imp)]
                    @ page_events (catalog_url_of imp) [1 ..< nat \<lceil>real (parse_total sp) / 24\<rceil>])))"
proof (intro conjI impI)
  assume "parse_total sp \<le> 24"
  then show "flow_trace (collect_imprint e limit imp (all_books, trace))
             = trace @ [Get (catalog_url_of imp)]"
    by (rule flow_trace_single_page [OF assms(1) assms(2)])
next
  let ?total = "parse_total sp"
  let ?cu = "catalog_url_of imp"
  let ?k = "nat \<lceil>real ?total / 24\<rceil>"
  assume big: "24 < ?total"
  then have k: "2 \<le> ?k" by linarith
  show "\<exists>m < ?k. flow_trace (collect_imprint e limit imp (all_books, trace))
                = trace @ [Get ?cu] @ page_events ?cu [1 ..< Suc m]"
  proof (cases "limit_reached limit (all_books @ urls)")
    case True
    then have "flow_trace (collect_imprint e limit imp (all_books, trace)) = trace @ [Get ?cu]"
      by (simp add: collect_imprint_success [OF assms(1) assms(2)] assms(3) Let_def)
    moreover from k have "0 < ?k" by linarith
    ultimately show ?thesis by (intro exI [of _ 0]) (simp add: page_events_def)
  next
    case False
    with big have c: "collect_imprint e limit imp (all_books, trace)
        = paginate e limit ?cu imp [1 ..< ?k] (all_books @ urls, trace @ [Get ?cu])"
      by (simp add: collect_imprint_success [OF assms(1) assms(2)] assms(3) Let_def ceil24)
    from paginate_trace_prefix [of "[1 ..< ?k]" e limit ?cu imp "all_books @ urls" "trace @ [Get ?cu]"]
    obtain m where m: "m \<le> length [1 ..< ?k]"
      and f: "flow_trace (paginate e limit ?cu imp [1 ..< ?k] (all_books @ urls, trace @ [Get ?cu]))
          = (trace @ [Get ?cu]) @ page_events ?cu (take m [1 ..< ?k])"
      by blast
    from m have m': "m \<le> ?k - 1" by simp
    from f have "flow_trace (collect_imprint e limit imp (all_books, trace))
          = trace @ [Get ?cu] @ page_events ?cu [1 ..< Suc m]"
      unfolding c take_upt_one [OF m'] by simp
    moreover from m' k have "m < ?k" by linarith
    ultimately show ?thesis by blast
  qed
next
  let ?total = "parse_total sp"
  let ?cu = "catalog_url_of imp"
  assume h: "24 < ?total \<and> collect_imprint e limit imp (all_books, trace) = Proceed (books', trace')"
  then have "paginate e limit ?cu imp [1 ..< (?total + 23) div 24]
       (all_books @ urls, trace @ [Get ?cu]) = Proceed (books', trace')"
    by (simp add: collect_imprint_success [OF assms(1) assms(2)] assms(3) Let_def split: if_splits)
  from paginate_Proceed_trace [OF this]
  have t: "trace' = trace @ [Get ?cu] @ page_events ?cu [1 ..< nat \<lceil>real ?total / 24\<rceil>]"
    by (simp add: ceil24)
  then show "trace' = trace @ [Get ?cu] @ page_events ?cu [1 ..< nat \<lceil>real ?total / 24\<rceil>]" .
  from t show "requests_made trace' = requests_made trace + 1 + (nat \<lceil>real ?total / 24\<rceil> - 1)"
    by (simp add: requests_made_append requests_made_page_events requests_made_Cons_Get)
next
  let ?total = "parse_total sp"
  let ?cu = "catalog_url_of imp"
  let ?k = "nat \<lceil>real ?total / 24\<rceil>"
  assume h: "24 < ?total
         \<and> list_all (page_accepted e imp)
             (zip [Suc (requests_made trace) ..< requests_made trace + ?k]
                  (map (page_url_of ?cu) [1 ..< ?k]))"
  then have big: "24 < ?total" by blast
  then have k: "2 \<le> ?k" by linarith
  have r: "requests_made (trace @ [Get ?cu]) = Suc (requests_made trace)" by simp
  from k have l: "requests_made (trace @ [Get ?cu]) + length [1 ..< ?k] = requests_made trace + ?k"
    unfolding r by simp
  from h have "list_all (page_accepted e imp)
      (zip [requests_made (trace @ [Get ?cu]) ..< requests_made (trace @ [Get ?cu]) + length [1 ..< ?k]]
           (map (page_url_of ?cu) [1 ..< ?k]))"
    unfolding l unfolding r by blast
  from paginate_all_pages [OF this, of "all_books @ urls"]
  obtain b' where "paginate e None ?cu imp [1 ..< ?k] (all_books @ urls, trace @ [Get ?cu])
      = Proceed (b', (trace @ [Get ?cu]) @ page_events ?cu [1 ..< ?k])" ..
  with big have "collect_imprint e None imp (all_books, trace)
      = Proceed (b', trace @ [Get ?cu] @ page_events ?cu [1 ..< ?k])"
    by (simp add: collect_imprint_success [OF assms(1) assms(2)] assms(3) Let_def ceil24
        limit_reached_None)
  then show "\<exists>books''. collect_imprint e None imp (all_books, trace)
      = Proceed (books'', trace @ [Get ?cu] @ page_events ?cu [1 ..< ?k])" ..
qed

lemma ex_a0:
  "http ex_env (requests_made [Sleep 1000]) (catalog_url_of ''a'') = Inr ''a0''"
  by code_simp

lemma ex_a0_page: "html_parser ex_env ''a0'' = Some ex_page_a0"
  by code_simp

lemma ex_a0_urls: "extract_urls_from_page ex_env ex_page_a0 ''a'' = Inr (take 2 ex_entries)"
  by code_simp

lemma ex_a0_total: "parse_total ex_page_a0 = 50"
  by code_simp

lemma ex_a0_pages: "nat \<lceil>real 50 / 24\<rceil> = 3"
  by linarith

lemma ex_a_unlimited:
  "collect_imprint ex_env None ''a'' ([ex_entries ! 3], [Sleep 1000]) =
     Proceed (ex_entries ! 3 # take 3 ex_entries,
       [Sleep 1000,
        Get ''https://www.matthes-seitz-berlin.de/a/lieferbar.html'', Sleep 1000,
        Get ''https://www.matthes-seitz-berlin.de/a/lieferbar.html?p=1'', Sleep 1000,
        Get ''https://www.matthes-seitz-berlin.de/a/lieferbar.html?p=2''])"
  by code_simp

lemma ex_a_events:
  "[Sleep 1000] @ [Get (catalog_url_of ''a'')] @ page_events (catalog_url_of ''a'') [1 ..< 3]
     = [Sleep 1000,
        Get ''https://www.matthes-seitz-berlin.de/a/lieferbar.html'', Sleep 1000,
        Get ''https://www.matthes-seitz-berlin.de/a/lieferbar.html?p=1'', Sleep 1000,
        Get ''https://www.matthes-seitz-berlin.de/a/lieferbar.html?p=2'']"
  by code_simp

lemma ex_a_accepted:
  "list_all (page_accepted ex_env ''a'')
     (zip [Suc (requests_made [Sleep 1000]) ..< requests_made [Sleep 1000] + 3]
          (map (page_url_of (catalog_url_of ''a'')) [1 ..< 3]))"
  by code_simp

lemma ex_c0_total: "parse_total ex_page_c0 \<le> 24"
  by code_simp

theorem pagination_witness:
  "http ex_env (requests_made [Sleep 1000]) (catalog_url_of ''a'') = Inr ''a0''
   \<and> html_parser ex_env ''a0'' = Some ex_page_a0
   \<and> extract_urls_from_page ex_env ex_page_a0 ''a'' = Inr (take 2 ex_entries)
   \<and> parse_total ex_page_a0 = 50
   \<and> nat \<lceil>real 50 / 24\<rceil> - 1 = 2
   \<and> list_all (page_accepted ex_env ''a'')
        (zip [Suc (requests_made [Sleep 1000]) ..< requests_made [Sleep 1000] + 3]
             (map (page_url_of (catalog_url_of ''a'')) [1 ..< 3]))
   \<and> (\<exists>books''. collect_imprint ex_env None ''a'' ([ex_entries ! 3], [Sleep 1000]) =
         Proceed (books'',
           [Sleep 1000,
            Get ''https://www.matthes-seitz-berlin.de/a/lieferbar.html'', Sleep 1000,
            Get ''https://www.matthes-seitz-berlin.de/a/lieferbar.html?p=1'', Sleep 1000,
            Get ''https://www.matthes-seitz-berlin.de/a/lieferbar.html?p=2'']))
   \<and> requests_made
        [Sleep 1000,
         Get ''https://www.matthes-seitz-berlin.de/a/lieferbar.html'', Sleep 1000,
         Get ''https://www.matthes-seitz-berlin.de/a/lieferbar.html?p=1'', Sleep 1000,
         Get ''https://www.matthes-seitz-berlin.de/a/lieferbar.html?p=2'']
       = requests_made [Sleep 1000] + 1 + (3 - 1)
   \<and> http ex_env (requests_made [Sleep 1000]) (catalog_url_of ''c'') = Inr ''c0''
   \<and> html_parser ex_env ''c0'' = Some ex_page_c0
   \<and> extract_urls_from_page ex_env ex_page_c0 ''c'' = Inr [ex_entries ! 3]
   \<and> parse_total ex_page_c0 \<le> 24
   \<and> flow_trace (collect_imprint ex_env (Some 5) ''c'' ([ex_entries ! 0], [Sleep 1000]))
       = [Sleep 1000, Get (catalog_url_of ''c'')]"
proof -
  note a = pagination_fetches [OF ex_a0 ex_a0_page ex_a0_urls,
      where limit = None and all_books = "[ex_entries ! 3]"
        and books' = "ex_entries ! 3 # take 3 ex_entries"
        and trace' = "[Sleep 1000,
           Get ''https://www.matthes-seitz-berlin.de/a/lieferbar.html'', Sleep 1000,
           Get ''https://www.matthes-seitz-berlin.de/a/lieferbar.html?p=1'', Sleep 1000,
           Get ''https://www.matthes-seitz-berlin.de/a/lieferbar.html?p=2'']",
      unfolded ex_a0_total ex_a0_pages]
  have big: "(24 :: nat) < 50" by simp
  from a [THEN conjunct2, THEN conjunct2, THEN conjunct2, THEN mp, OF conjI [OF big ex_a_accepted]]
  have 1: "\<exists>books''. collect_imprint ex_env None ''a'' ([ex_entries ! 3], [Sleep 1000]) =
         Proceed (books'',
           [Sleep 1000,
            Get ''https://www.matthes-seitz-berlin.de/a/lieferbar.html'', Sleep 1000,
            Get ''https://www.matthes-seitz-berlin.de/a/lieferbar.html?p=1'', Sleep 1000,
            Get ''https://www.matthes-seitz-berlin.de/a/lieferbar.html?p=2''])"
    unfolding ex_a_events .
  from a [THEN conjunct2, THEN conjunct2, THEN conjunct1, THEN mp, OF conjI [OF big ex_a_unlimited]]
  have 2: "requests_made
        [Sleep 1000,
         Get ''https://www.matthes-seitz-berlin.de/a/lieferbar.html'', Sleep 1000,
         Get ''https://www.matthes-seitz-berlin.de/a/lieferbar.html?p=1'', Sleep 1000,
         Get ''https://www.matthes-seitz-berlin.de/a/lieferbar.html?p=2'']
       = requests_made [Sleep 1000] + 1 + (3 - 1)"
    by (rule conjunct2)
  from ex_c0 have c0: "http ex_env (requests_made [Sleep 1000]) (catalog_url_of ''c'') = Inr ''c0''"
    and c1: "html_parser ex_env ''c0'' = Some ex_page_c0" by blast+
  note c = pagination_fetches [OF c0 c1 ex_c0_urls,
      where limit = "Some 5" and all_books = "[ex_entries ! 0]"]
  from c [THEN conjunct1, THEN mp, OF ex_c0_total]
  have 3: "flow_trace (collect_imprint ex_env (Some 5) ''c'' ([ex_entries ! 0], [Sleep 1000]))
       = [Sleep 1000, Get (catalog_url_of ''c'')]"
    by simp
  have 4: "nat \<lceil>real 50 / 24\<rceil> - 1 = 2" unfolding ex_a0_pages by simp
  from 1 2 3 4 ex_a0 ex_a0_page ex_a0_urls ex_a0_total ex_a_accepted c0 c1 ex_c0_urls ex_c0_total
  show ?thesis by blast
qed

section \<open>Selecting from a page that lost its hidden spans\<close>

lemma select_decompose_le:
  "length (select_node q anc (decompose_node c x)) \<le> length (select_node q anc x)"
  "length (select_nodes q anc (decompose_nodes c xs)) \<le> length (select_nodes q anc xs)"
proof (induction c x and c xs arbitrary: anc and anc rule: decompose_node_decompose_nodes.induct)
  case (5 c x xs)
  show ?case
  proof (cases x)
    case (Tag a kids)
    show ?thesis
    proof (cases "matches_compound c a")
      case True
      with Tag "5.IH"(1) [of a kids anc] show ?thesis by (simp add: trans_le_add2)
    next
      case False
      with Tag "5.IH"(2) [of a kids anc] "5.IH"(3) [of a kids anc] show ?thesis
        by (simp add: add_mono)
    qed
  next
    case (NavigableString s)
    with "5.IH"(5) [of s anc] show ?thesis by simp
  next
    case (Comment s)
    with "5.IH"(7) [of s anc] show ?thesis by simp
  qed
qed simp_all

lemma select_decompose_in_le:
  "length (select_node q anc (snd (decompose_in_node d c x))) \<le> length (select_node q anc x)"
  "length (select_nodes q anc (snd (decompose_in_nodes d c xs))) \<le> length (select_nodes q anc xs)"
proof (induction d c x and d c xs arbitrary: anc and anc rule: decompose_in_node_decompose_in_nodes.induct)
  case (1 d c a kids)
  show ?case
  proof (cases "matches_compound d a")
    case True
    with select_decompose_le(2) [of q "a # anc" c kids] show ?thesis by simp
  next
    case False
    obtain g kids' where dk: "decompose_in_nodes d c kids = (g, kids')"
      by (cases "decompose_in_nodes d c kids")
    with False "1.IH" [of "a # anc"] show ?thesis by simp
  qed
next
  case (5 d c x xs)
  obtain f x' where dx: "decompose_in_node d c x = (f, x')" by (cases "decompose_in_node d c x")
  show ?case
  proof (cases f)
    case True
    with dx "5.IH"(1) [of anc] show ?thesis by simp
  next
    case False
    obtain g xs' where dxs: "decompose_in_nodes d c xs = (g, xs')"
      by (cases "decompose_in_nodes d c xs")
    from False dx have "length (select_nodes q anc (snd (decompose_in_nodes d c xs)))
        \<le> length (select_nodes q anc xs)"
      using "5.IH"(2) by simp
    with False dx dxs "5.IH"(1) [of anc] show ?thesis
      by (simp add: add_mono)
  qed
qed simp_all

lemma select_one_decompose_in:
  "select_one q sp = None \<Longrightarrow> select_one q (snd (decompose_in_nodes d c sp)) = None"
proof -
  assume "select_one q sp = None"
  then have "select_nodes q [] sp = []"
    by (simp add: select_one_def select_one_of_def select_def split: list.splits)
  with select_decompose_in_le(2) [of q "[]" d c sp]
  have "select_nodes q [] (snd (decompose_in_nodes d c sp)) = []" by simp
  then show ?thesis by (simp add: select_one_def select_one_of_def select_def)
qed

section \<open>The record of a detail page\<close>

lemma detail_record_None_iff:
  "detail_record sp u imp = None \<longleftrightarrow> select_one title_sel sp = None"
  by (simp add: detail_record_def Let_def split: option.splits)

lemma detail_record_book:
  assumes "detail_record sp u imp = Some book"
  shows "\<exists>title_el. select_one title_sel sp = Some title_el \<and>
    book = [(''url'', PyStr u), (''imprint'', PyStr imp),
            (''title'', PyStr (get_text [] title_el)),
            (''subtitle'', opt_str (map_option (get_text []) (select_one subtitle_sel sp))),
            (''authors'', PyList (map (get_text []) (select author_sel sp))),
            (''isbn'', opt_str (case select_one [number_c] sp of
                                  None \<Rightarrow> None | Some number_el \<Rightarrow> parse_isbn number_el)),
            (''price'', opt_str (map_option (get_text [])
                (select_one price_sel (after_isbn sp)))),
            (''pages_binding'', opt_str (map_option (get_text [])
                (select_one info_sel (after_isbn sp)))),
            (''year'', opt_str (map_option (\<lambda>el. parse_date (get_text [] el))
                (select_one dateof_sel (after_isbn sp)))),
            (''series'', opt_str (map_option (get_text [])
                (select_one serial_sel (after_isbn sp)))),
            (''keywords'', PyList (case select_one keywords_sel (after_isbn sp) of
                                     None \<Rightarrow> [] | Some kw_el \<Rightarrow> parse_keywords (get_text [] kw_el))),
            (''description'', opt_str (map_option (get_text [line_feed])
                (select_one description_sel (after_isbn sp))))]"
proof -
  from assms obtain title_el where t: "select_one title_sel sp = Some title_el"
    by (cases "select_one title_sel sp") (simp_all add: detail_record_def Let_def)
  with assms show ?thesis by (simp add: detail_record_def Let_def)
qed

lemma field_lookup:
  "field [(''url'', v1), (''imprint'', v2), (''title'', v3), (''subtitle'', v4), (''authors'', v5),
          (''isbn'', v6), (''price'', v7), (''pages_binding'', v8), (''year'', v9),
          (''series'', v10), (''keywords'', v11), (''description'', v12)] k =
     (if k = ''url'' then Some v1 else if k = ''imprint'' then Some v2
      else if k = ''title'' then Some v3 else if k = ''subtitle'' then Some v4
      else if k = ''authors'' then Some v5 else if k = ''isbn'' then Some v6
      else if k = ''price'' then Some v7 else if k = ''pages_binding'' then Some v8
      else if k = ''year'' then Some v9 else if k = ''series'' then Some v10
      else if k = ''keywords'' then Some v11 else if k = ''description'' then Some v12
      else None)"
  by (simp add: field_def)

lemma opt_str_None: "opt_str None = PyNone"
  by (simp add: opt_str_def)

lemma opt_str_cases: "opt_str v = PyNone \<or> (\<exists>s. opt_str v = PyStr s)"
  by (cases v) (simp_all add: opt_str_def)

lemma after_isbn_absent: "select_one q sp = None \<Longrightarrow> select_one q (after_isbn sp) = None"
  by (simp add: after_isbn_def select_one_decompose_in split: option.splits)

lemma detail_record_keys:
  "detail_record sp u imp = Some book \<Longrightarrow> map fst book = book_keys"
  using detail_record_book [of sp u imp book] by (auto simp: book_keys_def)

lemma detail_record_fields:
  assumes "detail_record sp u imp = Some book"
  shows "field book ''url'' = Some (PyStr u)"
    and "field book ''imprint'' = Some (PyStr imp)"
    and "\<exists>t. field book ''title'' = Some (PyStr t)"
    and "\<exists>as. field book ''authors'' = Some (PyList as)"
    and "\<exists>ks. field book ''keywords'' = Some (PyList ks)"
    and "list_all (\<lambda>k. field book k = Some PyNone \<or> (\<exists>s. field book k = Some (PyStr s)))
           [''subtitle'', ''isbn'', ''price'', ''pages_binding'', ''year'', ''series'', ''description'']"
    and "select_one subtitle_sel sp = None \<longrightarrow> field book ''subtitle'' = Some PyNone"
    and "select_one [number_c] sp = None \<longrightarrow> field book ''isbn'' = Some PyNone"
    and "select_one price_sel sp = None \<longrightarrow> field book ''price'' = Some PyNone"
    and "select_one info_sel sp = None \<longrightarrow> field book ''pages_binding'' = Some PyNone"
    and "select_one dateof_sel sp = None \<longrightarrow> field book ''year'' = Some PyNone"
    and "select_one serial_sel sp = None \<longrightarrow> field book ''series'' = Some PyNone"
    and "select_one description_sel sp = None \<longrightarrow> field book ''description'' = Some PyNone"
    and "select author_sel sp = [] \<longrightarrow> field book ''authors'' = Some (PyList [])"
    and "select_one keywords_sel sp = None \<longrightarrow> field book ''keywords'' = Some (PyList [])"
proof -
  from detail_record_book [OF assms] obtain title_el where
    b: "book = [(''url'', PyStr u), (''imprint'', PyStr imp),
            (''title'', PyStr (get_text [] title_el)),
            (''subtitle'', opt_str (map_option (get_text []) (select_one subtitle_sel sp))),
            (''authors'', PyList (map (get_text []) (select author_sel sp))),
            (''isbn'', opt_str (case select_one [number_c] sp of
                                  None \<Rightarrow> None | Some number_el \<Rightarrow> parse_isbn number_el)),
            (''price'', opt_str (map_option (get_text [])
                (select_one price_sel (after_isbn sp)))),
            (''pages_binding'', opt_str (map_option (get_text [])
                (select_one info_sel (after_isbn sp)))),
            (''year'', opt_str (map_option (\<lambda>el. parse_date (get_text [] el))
                (select_one dateof_sel (after_isbn sp)))),
            (''series'', opt_str (map_option (get_text [])
                (select_one serial_sel (after_isbn sp)))),
            (''keywords'', PyList (case select_one keywords_sel (after_isbn sp) of
                                     None \<Rightarrow> [] | Some kw_el \<Rightarrow> parse_keywords (get_text [] kw_el))),
            (''description'', opt_str (map_option (get_text [line_feed])
                (select_one description_sel (after_isbn sp))))]"
    by blast
  show "field book ''url'' = Some (PyStr u)" unfolding b field_lookup by simp
  show "field book ''imprint'' = Some (PyStr imp)" unfolding b field_lookup by simp
  show "\<exists>t. field book ''title'' = Some (PyStr t)" unfolding b field_lookup by simp
  show "\<exists>as. field book ''authors'' = Some (PyList as)" unfolding b field_lookup by simp
  show "\<exists>ks. field book ''keywords'' = Some (PyList ks)" unfolding b field_lookup by simp
  show "list_all (\<lambda>k. field book k = Some PyNone \<or> (\<exists>s. field book k = Some (PyStr s)))
           [''subtitle'', ''isbn'', ''price'', ''pages_binding'', ''year'', ''series'', ''description'']"
    unfolding b field_lookup using opt_str_cases by simp
  show "select_one subtitle_sel sp = None \<longrightarrow> field book ''subtitle'' = Some PyNone"
    unfolding b field_lookup by (simp add: opt_str_None)
  show "select_one [number_c] sp = None \<longrightarrow> field book ''isbn'' = Some PyNone"
    unfolding b field_lookup by (simp add: opt_str_None)
  show "select_one price_sel sp = None \<longrightarrow> field book ''price'' = Some PyNone"
    unfolding b field_lookup by (simp add: opt_str_None after_isbn_absent)
  show "select_one info_sel sp = None \<longrightarrow> field book ''pages_binding'' = Some PyNone"
    unfolding b field_lookup by (simp add: opt_str_None after_isbn_absent)
  show "select_one dateof_sel sp = None \<longrightarrow> field book ''year'' = Some PyNone"
    unfolding b field_lookup by (simp add: opt_str_None after_isbn_absent)
  show "select_one serial_sel sp = None \<longrightarrow> field book ''series'' = Some PyNone"
    unfolding b field_lookup by (simp add: opt_str_None after_isbn_absent)
  show "select_one description_sel sp = None \<longrightarrow> field book ''description'' = Some PyNone"
    unfolding b field_lookup by (simp add: opt_str_None after_isbn_absent)
  show "select author_sel sp = [] \<longrightarrow> field book ''authors'' = Some (PyList [])"
    unfolding b field_lookup by simp
  show "select_one keywords_sel sp = None \<longrightarrow> field book ''keywords'' = Some (PyList [])"
    unfolding b field_lookup by (simp add: after_isbn_absent)
qed

lemma detail_record_url:
  "detail_record sp u imp = Some book \<Longrightarrow>
   field book ''url'' = Some (PyStr u) \<and> field book ''imprint'' = Some (PyStr imp)"
  using detail_record_fields(1,2) by blast


section \<open>The loop over the entries\<close>

lemma requests_made_entry:
  "requests_made (trace @ Get u # pause_after n i) = Suc (requests_made trace)"
  by (simp add: requests_made_def pause_after_def)

lemma scrape_loop_step:
  "scrape_loop e n i (entry # rest) (results, trace) =
     (if rejected e (requests_made trace) entry
      then Raised ParserRejectedMarkup (trace @ [Get (url entry)])
      else scrape_loop e n (Suc i) rest
             (results @ (case detail_result e (requests_made trace) entry of
                           None \<Rightarrow> [] | Some book \<Rightarrow> [book]),
              trace @ Get (url entry) # pause_after n i))"
proof (cases "http e (requests_made trace) (url entry)")
  case (Inl err)
  then show ?thesis
    by (simp add: requests_get_eq detail_result_def rejected_def pause_after_def)
next
  case (Inr body)
  show ?thesis
  proof (cases "html_parser e body")
    case None
    with Inr show ?thesis
      by (simp add: requests_get_eq rejected_def parse_detail_page_def BeautifulSoup_def)
  next
    case (Some sp)
    show ?thesis
    proof (cases "detail_record sp (url entry) (imprint entry)")
      case None
      with Inr Some show ?thesis
        by (simp add: requests_get_eq detail_result_def rejected_def pause_after_def
            parse_detail_page_def BeautifulSoup_def)
    next
      case book: (Some book)
      from detail_record_not_empty [OF book] book Inr Some show ?thesis
        by (simp add: requests_get_eq detail_result_def rejected_def pause_after_def
            parse_detail_page_def BeautifulSoup_def)
    qed
  qed
qed

lemma detail_events_Nil: "detail_events n i [] = []"
  by (simp add: detail_events_def)

lemma detail_events_Cons:
  "detail_events n i (entry # rest) = Get (url entry) # pause_after n i @ detail_events n (Suc i) rest"
  by (simp add: detail_events_def)

lemma detail_results_Nil: "detail_results e k [] = []"
  by (simp add: detail_results_def List.map_filter_simps)

lemma detail_results_Cons:
  "detail_results e k (entry # rest) =
     (case detail_result e k entry of None \<Rightarrow> [] | Some book \<Rightarrow> [book]) @ detail_results e (Suc k) rest"
  by (simp add: detail_results_def List.map_filter_simps split: option.splits)

text \<open>When the parser rejects no page, the loop runs to its end.\<close>

lemma scrape_loop_ok:
  "list_all (\<lambda>(k, entry). \<not> rejected e k entry) (enumerate (requests_made trace) entries) \<Longrightarrow>
   scrape_loop e n i entries (results, trace)
     = Returned (results @ detail_results e (requests_made trace) entries,
                 trace @ detail_events n i entries)"
proof (induction entries arbitrary: i results trace)
  case Nil
  show ?case by (simp add: detail_events_Nil detail_results_Nil)
next
  case (Cons entry rest)
  from Cons.prems have nr: "\<not> rejected e (requests_made trace) entry"
    and rest: "list_all (\<lambda>(k, entry). \<not> rejected e k entry)
        (enumerate (requests_made (trace @ Get (url entry) # pause_after n i)) rest)"
    unfolding requests_made_entry by simp_all
  show ?case
    unfolding scrape_loop_step Cons.IH [OF rest] requests_made_entry
    using nr by (simp add: detail_events_Cons detail_results_Cons)
qed

text \<open>The first page that the parser rejects ends the call.\<close>

lemma scrape_loop_rejected:
  "list_all (\<lambda>(k, entry). \<not> rejected e k entry) (enumerate (requests_made trace) pre) \<Longrightarrow>
   rejected e (requests_made trace + length pre) entry \<Longrightarrow>
   scrape_loop e n i (pre @ entry # post) (results, trace)
     = Raised ParserRejectedMarkup (trace @ detail_events n i pre @ [Get (url entry)])"
proof (induction pre arbitrary: i results trace)
  case Nil
  then show ?case unfolding append_Nil scrape_loop_step by (simp add: detail_events_Nil)
next
  case (Cons x pre)
  from Cons.prems(1) have nr: "\<not> rejected e (requests_made trace) x"
    and rest: "list_all (\<lambda>(k, entry). \<not> rejected e k entry)
        (enumerate (requests_made (trace @ Get (url x) # pause_after n i)) pre)"
    unfolding requests_made_entry by simp_all
  from Cons.prems(2)
  have rj: "rejected e (requests_made (trace @ Get (url x) # pause_after n i) + length pre) entry"
    unfolding requests_made_entry by simp
  show ?case
    unfolding append_Cons scrape_loop_step Cons.IH [OF rest rj]
    using nr by (simp add: detail_events_Cons)
qed

lemma scrape_loop_Returned:
  "scrape_loop e n i entries (results, trace) = Returned st \<Longrightarrow>
   list_all (\<lambda>(k, entry). \<not> rejected e k entry) (enumerate (requests_made trace) entries)"
proof (induction entries arbitrary: i results trace)
  case Nil
  show ?case by simp
next
  case (Cons entry rest)
  from Cons.prems have nr: "\<not> rejected e (requests_made trace) entry"
    unfolding scrape_loop_step by (auto split: if_splits)
  with Cons.prems have "scrape_loop e n (Suc i) rest
      (results @ (case detail_result e (requests_made trace) entry of
                    None \<Rightarrow> [] | Some book \<Rightarrow> [book]),
       trace @ Get (url entry) # pause_after n i) = Returned st"
    unfolding scrape_loop_step by simp
  from Cons.IH [OF this] nr show ?case unfolding requests_made_entry by simp
qed

lemma detail_result_cases:
  "\<not> rejected e n entry \<Longrightarrow>
   (fetch_fails e n entry \<and> \<not> titleless e n entry \<and> detail_result e n entry = None)
   \<or> (\<not> fetch_fails e n entry \<and> titleless e n entry \<and> detail_result e n entry = None)
   \<or> (\<not> fetch_fails e n entry \<and> \<not> titleless e n entry
       \<and> (\<exists>book. detail_result e n entry = Some book
              \<and> field book ''url'' = Some (PyStr (url entry))
              \<and> field book ''imprint'' = Some (PyStr (imprint entry))
              \<and> map fst book = book_keys))"
proof (cases "http e n (url entry)")
  case (Inl err)
  then show ?thesis by (simp add: fetch_fails_def titleless_def detail_result_def)
next
  case (Inr body)
  assume "\<not> rejected e n entry"
  with Inr obtain sp where sp: "html_parser e body = Some sp"
    by (auto simp add: rejected_def)
  show ?thesis
  proof (cases "detail_record sp (url entry) (imprint entry)")
    case None
    with Inr sp show ?thesis
      by (simp add: fetch_fails_def titleless_def detail_result_def detail_record_None_iff)
  next
    case (Some book)
    then have "select_one title_sel sp \<noteq> None"
      using detail_record_None_iff [of sp "url entry" "imprint entry"] by simp
    with Inr sp Some detail_record_url [OF Some] detail_record_keys [OF Some] show ?thesis
      by (simp add: fetch_fails_def titleless_def detail_result_def)
  qed
qed



lemma detail_results_records:
  "list_all (\<lambda>(k, entry). \<not> rejected e k entry) (enumerate n entries) \<Longrightarrow>
   map (\<lambda>b. (field b ''url'', field b ''imprint'')) (detail_results e n entries)
   = map (\<lambda>(n, entry). (Some (PyStr (url entry)), Some (PyStr (imprint entry))))
       (filter (\<lambda>(n, entry). \<not> fetch_fails e n entry \<and> \<not> titleless e n entry) (enumerate n entries))"
proof (induction entries arbitrary: n)
  case Nil
  show ?case by (simp add: detail_results_Nil)
next
  case (Cons entry rest)
  from Cons.prems have nr: "\<not> rejected e n entry"
    and rest: "list_all (\<lambda>(k, entry). \<not> rejected e k entry) (enumerate (Suc n) rest)"
    by simp_all
  from detail_result_cases [OF nr] Cons.IH [OF rest] show ?case
    unfolding detail_results_Cons by auto
qed

lemma detail_results_count:
  "list_all (\<lambda>(k, entry). \<not> rejected e k entry) (enumerate n entries) \<Longrightarrow>
   length (detail_results e n entries)
   + length (filter (\<lambda>(n, entry). fetch_fails e n entry) (enumerate n entries))
   + length (filter (\<lambda>(n, entry). titleless e n entry) (enumerate n entries)) = length entries"
proof (induction entries arbitrary: n)
  case Nil
  show ?case by (simp add: detail_results_Nil)
next
  case (Cons entry rest)
  from Cons.prems have nr: "\<not> rejected e n entry"
    and rest: "list_all (\<lambda>(k, entry). \<not> rejected e k entry) (enumerate (Suc n) rest)"
    by simp_all
  from detail_result_cases [OF nr] Cons.IH [OF rest] show ?case
    unfolding detail_results_Cons by auto
qed

lemma scrape_books_Returned:
  assumes "scrape_books e book_urls trace = Returned (results, trace')"
  shows "list_all (\<lambda>(k, entry). \<not> rejected e k entry) (enumerate (requests_made trace) book_urls)"
    and "results = detail_results e (requests_made trace) book_urls"
    and "trace' = trace @ detail_events (length book_urls) 0 book_urls"
proof -
  from assms show a: "list_all (\<lambda>(k, entry). \<not> rejected e k entry)
      (enumerate (requests_made trace) book_urls)"
    unfolding scrape_books_def by (rule scrape_loop_Returned)
  from assms scrape_loop_ok [OF a, of "length book_urls" 0 "[]"]
  show "results = detail_results e (requests_made trace) book_urls"
    and "trace' = trace @ detail_events (length book_urls) 0 book_urls"
    unfolding scrape_books_def by simp_all
qed

lemma ex_scrape_rejected:
  "scrape_books ex_env [ex_entries ! 0, ex_entry_6, ex_entries ! 3] [Sleep 1000]
     = Raised ParserRejectedMarkup
         [Sleep 1000, Get (url (ex_entries ! 0)), Sleep 500, Get (url ex_entry_6)]"
  by code_simp

text \<open>
  C1: \<open>scrape_books\<close> returns a list exactly when the parser rejects none of the pages it
  fetched. When it returns, the list holds exactly the records of the entries whose request
  succeeded and whose page has a title element, in the order of the input: the \<open>k\<close>-th entry
  is requested once, as the \<open>k\<close>-th request of the call, and gives the record that
  \<open>_parse_detail_page\<close> builds from its page, or nothing. Each record carries the URL and the
  imprint of its entry. An entry whose page has no title element gives no record and no
  placeholder, so the records, the failed requests and the pages without a title add up to
  the length of the input. But the first fetched page that the parser rejects ends the call
  with \<open>ParserRejectedMarkup\<close>, which \<open>except requests.RequestException\<close> does not catch: no
  list is returned, and the entries after it are never requested. So it is for the list of
  the first book, the sixth book and the fourth book of the small catalog.
\<close>

theorem scrape_books_records:
  "((\<exists>st. scrape_books e book_urls trace = Returned st)
      \<longleftrightarrow> list_all (\<lambda>(k, entry). \<not> rejected e k entry) (enumerate (requests_made trace) book_urls))
   \<and> (scrape_books e book_urls trace = Returned (results, trace') \<longrightarrow>
        results = detail_results e (requests_made trace) book_urls
        \<and> map (\<lambda>b. (field b ''url'', field b ''imprint'')) results
          = map (\<lambda>(n, entry). (Some (PyStr (url entry)), Some (PyStr (imprint entry))))
              (filter (\<lambda>(n, entry). \<not> fetch_fails e n entry \<and> \<not> titleless e n entry)
                 (enumerate (requests_made trace) book_urls))
        \<and> length results
            + length (filter (\<lambda>(n, entry). fetch_fails e n entry) (enumerate (requests_made trace) book_urls))
            + length (filter (\<lambda>(n, entry). titleless e n entry) (enumerate (requests_made trace) book_urls))
          = length book_urls
        \<and> trace' = trace @ detail_events (length book_urls) 0 book_urls)
   \<and> (list_all (\<lambda>(k, entry). \<not> rejected e k entry) (enumerate (requests_made trace) pre)
        \<and> rejected e (requests_made trace + length pre) entry \<longrightarrow>
        scrape_books e (pre @ entry # post) trace
          = Raised ParserRejectedMarkup
              (trace @ detail_events (length (pre @ entry # post)) 0 pre @ [Get (url entry)]))
   \<and> scrape_books ex_env [ex_entries ! 0, ex_entry_6, ex_entries ! 3] [Sleep 1000]
       = Raised ParserRejectedMarkup
           [Sleep 1000, Get (url (ex_entries ! 0)), Sleep 500, Get (url ex_entry_6)]"
proof (intro conjI impI)
  show "(\<exists>st. scrape_books e book_urls trace = Returned st)
      \<longleftrightarrow> list_all (\<lambda>(k, entry). \<not> rejected e k entry) (enumerate (requests_made trace) book_urls)"
  proof
    assume "\<exists>st. scrape_books e book_urls trace = Returned st"
    then obtain st where "scrape_books e book_urls trace = Returned st" ..
    then show "list_all (\<lambda>(k, entry). \<not> rejected e k entry) (enumerate (requests_made trace) book_urls)"
      unfolding scrape_books_def by (rule scrape_loop_Returned)
  next
    assume "list_all (\<lambda>(k, entry). \<not> rejected e k entry) (enumerate (requests_made trace) book_urls)"
    from scrape_loop_ok [OF this, of "length book_urls" 0 "[]"]
    show "\<exists>st. scrape_books e book_urls trace = Returned st"
      unfolding scrape_books_def by blast
  qed
next
  assume r: "scrape_books e book_urls trace = Returned (results, trace')"
  note a = scrape_books_Returned [OF r]
  show "results = detail_results e (requests_made trace) book_urls" by (rule a(2))
  show "map (\<lambda>b. (field b ''url'', field b ''imprint'')) results
          = map (\<lambda>(n, entry). (Some (PyStr (url entry)), Some (PyStr (imprint entry))))
              (filter (\<lambda>(n, entry). \<not> fetch_fails e n entry \<and> \<not> titleless e n entry)
                 (enumerate (requests_made trace) book_urls))"
    unfolding a(2) by (rule detail_results_records [OF a(1)])
  show "length results
            + length (filter (\<lambda>(n, entry). fetch_fails e n entry) (enumerate (requests_made trace) book_urls))
            + length (filter (\<lambda>(n, entry). titleless e n entry) (enumerate (requests_made trace) book_urls))
          = length book_urls"
    unfolding a(2) by (rule detail_results_count [OF a(1)])
  show "trace' = trace @ detail_events (length book_urls) 0 book_urls" by (rule a(3))
next
  assume h: "list_all (\<lambda>(k, entry). \<not> rejected e k entry) (enumerate (requests_made trace) pre)
        \<and> rejected e (requests_made trace + length pre) entry"
  then have h1: "list_all (\<lambda>(k, entry). \<not> rejected e k entry) (enumerate (requests_made trace) pre)"
    and h2: "rejected e (requests_made trace + length pre) entry" by blast+
  show "scrape_books e (pre @ entry # post) trace
          = Raised ParserRejectedMarkup
              (trace @ detail_events (length (pre @ entry # post)) 0 pre @ [Get (url entry)])"
    unfolding scrape_books_def by (rule scrape_loop_rejected [OF h1 h2])
next
  show "scrape_books ex_env [ex_entries ! 0, ex_entry_6, ex_entries ! 3] [Sleep 1000]
       = Raised ParserRejectedMarkup
           [Sleep 1000, Get (url (ex_entries ! 0)), Sleep 500, Get (url ex_entry_6)]"
    by (rule ex_scrape_rejected)
qed

lemma ex_scrape_books:
  "scrape_books ex_env ex_entries [Sleep 1000]
     = Returned ([ex_book_1, ex_book_4],
         [Sleep 1000,
          Get ''https://www.matthes-seitz-berlin.de/a/buch-1.html'', Sleep 500,
          Get ''https://www.matthes-seitz-berlin.de/a/buch-2.html'', Sleep 500,
          Get ''https://www.matthes-seitz-berlin.de/a/buch-3.html'', Sleep 500,
          Get ''https://www.matthes-seitz-berlin.de/c/buch-4.html''])"
  by code_simp

lemma ex_scrape_counts:
  "length (filter (\<lambda>(n, entry). fetch_fails ex_env n entry)
             (enumerate (requests_made [Sleep 1000]) ex_entries)) = 1
   \<and> length (filter (\<lambda>(n, entry). titleless ex_env n entry)
             (enumerate (requests_made [Sleep 1000]) ex_entries)) = 1
   \<and> filter (\<lambda>(n, entry). \<not> fetch_fails ex_env n entry \<and> \<not> titleless ex_env n entry)
        (enumerate (requests_made [Sleep 1000]) ex_entries) = [(0, ex_entries ! 0), (3, ex_entries ! 3)]"
  by code_simp

lemma ex_scrape_hyp:
  "list_all (\<lambda>(k, entry). \<not> rejected ex_env k entry)
     (enumerate (requests_made [Sleep 1000]) [ex_entries ! 0])
   \<and> rejected ex_env (requests_made [Sleep 1000] + length [ex_entries ! 0]) ex_entry_6"
  by code_simp

lemma ex_scrape_events:
  "[Sleep 1000] @ detail_events (length ([ex_entries ! 0] @ ex_entry_6 # [ex_entries ! 3])) 0
       [ex_entries ! 0] @ [Get (url ex_entry_6)]
     = [Sleep 1000, Get ''https://www.matthes-seitz-berlin.de/a/buch-1.html'', Sleep 500,
        Get ''https://www.matthes-seitz-berlin.de/a/buch-6.html'']"
  by code_simp

theorem scrape_books_witness:
  "scrape_books ex_env ex_entries [Sleep 1000]
     = Returned ([ex_book_1, ex_book_4],
         [Sleep 1000,
          Get ''https://www.matthes-seitz-berlin.de/a/buch-1.html'', Sleep 500,
          Get ''https://www.matthes-seitz-berlin.de/a/buch-2.html'', Sleep 500,
          Get ''https://www.matthes-seitz-berlin.de/a/buch-3.html'', Sleep 500,
          Get ''https://www.matthes-seitz-berlin.de/c/buch-4.html''])
   \<and> [ex_book_1, ex_book_4] = detail_results ex_env (requests_made [Sleep 1000]) ex_entries
   \<and> map (\<lambda>b. (field b ''url'', field b ''imprint'')) [ex_book_1, ex_book_4]
       = [(Some (PyStr (url (ex_entries ! 0))), Some (PyStr (imprint (ex_entries ! 0)))),
          (Some (PyStr (url (ex_entries ! 3))), Some (PyStr (imprint (ex_entries ! 3))))]
   \<and> length [ex_book_1, ex_book_4] + 1 + 1 = length ex_entries
   \<and> list_all (\<lambda>(k, entry). \<not> rejected ex_env k entry)
        (enumerate (requests_made [Sleep 1000]) ex_entries)
   \<and> list_all (\<lambda>(k, entry). \<not> rejected ex_env k entry)
        (enumerate (requests_made [Sleep 1000]) [ex_entries ! 0])
   \<and> rejected ex_env (requests_made [Sleep 1000] + length [ex_entries ! 0]) ex_entry_6
   \<and> scrape_books ex_env ([ex_entries ! 0] @ ex_entry_6 # [ex_entries ! 3]) [Sleep 1000]
       = Raised ParserRejectedMarkup
           [Sleep 1000, Get ''https://www.matthes-seitz-berlin.de/a/buch-1.html'', Sleep 500,
            Get ''https://www.matthes-seitz-berlin.de/a/buch-6.html'']"
proof -
  note t = scrape_books_records [where e = ex_env and book_urls = ex_entries
      and trace = "[Sleep 1000]" and results = "[ex_book_1, ex_book_4]"
      and trace' = "[Sleep 1000,
          Get ''https://www.matthes-seitz-berlin.de/a/buch-1.html'', Sleep 500,
          Get ''https://www.matthes-seitz-berlin.de/a/buch-2.html'', Sleep 500,
          Get ''https://www.matthes-seitz-berlin.de/a/buch-3.html'', Sleep 500,
          Get ''https://www.matthes-seitz-berlin.de/c/buch-4.html'']"
      and pre = "[ex_entries ! 0]" and entry = ex_entry_6 and post = "[ex_entries ! 3]"]
  note r = t [THEN conjunct2, THEN conjunct1, THEN mp, OF ex_scrape_books]
  from ex_scrape_counts
  have c1: "length (filter (\<lambda>(n, entry). fetch_fails ex_env n entry)
             (enumerate (requests_made [Sleep 1000]) ex_entries)) = 1"
    and c2: "length (filter (\<lambda>(n, entry). titleless ex_env n entry)
             (enumerate (requests_made [Sleep 1000]) ex_entries)) = 1"
    and c3: "filter (\<lambda>(n, entry). \<not> fetch_fails ex_env n entry \<and> \<not> titleless ex_env n entry)
        (enumerate (requests_made [Sleep 1000]) ex_entries) = [(0, ex_entries ! 0), (3, ex_entries ! 3)]"
    by blast+
  have 1: "[ex_book_1, ex_book_4] = detail_results ex_env (requests_made [Sleep 1000]) ex_entries"
    by (rule r [THEN conjunct1])
  have 2: "map (\<lambda>b. (field b ''url'', field b ''imprint'')) [ex_book_1, ex_book_4]
       = [(Some (PyStr (url (ex_entries ! 0))), Some (PyStr (imprint (ex_entries ! 0)))),
          (Some (PyStr (url (ex_entries ! 3))), Some (PyStr (imprint (ex_entries ! 3))))]"
    using r [THEN conjunct2, THEN conjunct1] unfolding c3 by simp
  have 3: "length [ex_book_1, ex_book_4] + 1 + 1 = length ex_entries"
    using r [THEN conjunct2, THEN conjunct2, THEN conjunct1] unfolding c1 c2 .
  have 4: "list_all (\<lambda>(k, entry). \<not> rejected ex_env k entry)
        (enumerate (requests_made [Sleep 1000]) ex_entries)"
    using t [THEN conjunct1] ex_scrape_books by blast
  have 5: "scrape_books ex_env ([ex_entries ! 0] @ ex_entry_6 # [ex_entries ! 3]) [Sleep 1000]
       = Raised ParserRejectedMarkup
           [Sleep 1000, Get ''https://www.matthes-seitz-berlin.de/a/buch-1.html'', Sleep 500,
            Get ''https://www.matthes-seitz-berlin.de/a/buch-6.html'']"
    using t [THEN conjunct2, THEN conjunct2, THEN conjunct1, THEN mp, OF ex_scrape_hyp]
    unfolding ex_scrape_events .
  from 1 2 3 4 5 ex_scrape_books ex_scrape_hyp show ?thesis by blast
qed

section \<open>The shape of a record\<close>


















section \<open>The URLs of a listing page\<close>

lemma extract_items_Cons:
  "extract_items e imp (item # items) =
     (case item_href item of
        None \<Rightarrow> extract_items e imp items
      | Some href \<Rightarrow>
          (case normalize_href e href of
             Inl x \<Rightarrow> Inl x
           | Inr u \<Rightarrow>
               (case extract_items e imp items of
                  Inl x \<Rightarrow> Inl x
                | Inr books \<Rightarrow> Inr (\<lparr>url = u, imprint = imp\<rparr> # books))))"
  by (simp add: item_href_def split: option.splits prod.splits)

lemma normalize_href_raises: "normalize_href e href = Inl x \<Longrightarrow> x = ValueError"
  by (auto simp add: normalize_href_def py_urljoin_def split: if_splits option.splits)

text \<open>The function returns one entry per link, when every link can be normalised.\<close>

lemma extract_items_Inr:
  "extract_items e imp items = Inr entries \<longleftrightarrow>
     (\<exists>us. map (normalize_href e) (List.map_filter item_href items) = map Inr us
           \<and> entries = map (\<lambda>u. \<lparr>url = u, imprint = imp\<rparr>) us)"
proof (induction items arbitrary: entries)
  case Nil
  show ?case by (auto simp add: List.map_filter_simps)
next
  case (Cons item items)
  show ?case
  proof (cases "item_href item")
    case None
    then show ?thesis
      unfolding extract_items_Cons by (simp add: List.map_filter_simps Cons)
  next
    case (Some href)
    show ?thesis
    proof (cases "normalize_href e href")
      case (Inl x)
      with Some show ?thesis
        unfolding extract_items_Cons by (auto simp add: List.map_filter_simps)
    next
      case (Inr u)
      show ?thesis
      proof (cases "extract_items e imp items")
        case (Inl x)
        have "\<not> (\<exists>us. map (normalize_href e) (List.map_filter item_href items) = map Inr us
           \<and> entries' = map (\<lambda>u. \<lparr>url = u, imprint = imp\<rparr>) us)" for entries'
          using Cons [of entries'] Inl by simp
        then have no: "map (normalize_href e) (List.map_filter item_href items) \<noteq> map Inr us" for us
          by blast
        have "extract_items e imp (item # items) \<noteq> Inr entries"
          unfolding extract_items_Cons using Some Inr Inl by simp
        moreover have "\<not> (\<exists>us. map (normalize_href e) (List.map_filter item_href (item # items))
              = map Inr us \<and> entries = map (\<lambda>u. \<lparr>url = u, imprint = imp\<rparr>) us)"
        proof
          assume "\<exists>us. map (normalize_href e) (List.map_filter item_href (item # items))
              = map Inr us \<and> entries = map (\<lambda>u. \<lparr>url = u, imprint = imp\<rparr>) us"
          then obtain us where m: "map (normalize_href e) (List.map_filter item_href (item # items))
              = map Inr us" by blast
          with Some have "normalize_href e href # map (normalize_href e) (List.map_filter item_href items)
              = map Inr us" by (simp add: List.map_filter_simps)
          then obtain v vs where "us = v # vs"
            and "map (normalize_href e) (List.map_filter item_href items) = map Inr vs"
            by (cases us) auto
          with no [of vs] show False by simp
        qed
        ultimately show ?thesis by blast
      next
        case books: (Inr books)
        from Cons [of books] books obtain vs where
          vs: "map (normalize_href e) (List.map_filter item_href items) = map Inr vs"
          and b: "books = map (\<lambda>u. \<lparr>url = u, imprint = imp\<rparr>) vs" by auto
        have l: "extract_items e imp (item # items) = Inr (\<lparr>url = u, imprint = imp\<rparr> # books)"
          unfolding extract_items_Cons using Some Inr books by simp
        show ?thesis
        proof
          assume "extract_items e imp (item # items) = Inr entries"
          with l have en: "entries = \<lparr>url = u, imprint = imp\<rparr> # books" by simp
          have "map (normalize_href e) (List.map_filter item_href (item # items)) = map Inr (u # vs)"
            using Some Inr vs by (simp add: List.map_filter_simps)
          moreover have "entries = map (\<lambda>u. \<lparr>url = u, imprint = imp\<rparr>) (u # vs)"
            using en b by simp
          ultimately show "\<exists>us. map (normalize_href e) (List.map_filter item_href (item # items))
              = map Inr us \<and> entries = map (\<lambda>u. \<lparr>url = u, imprint = imp\<rparr>) us" by blast
        next
          assume "\<exists>us. map (normalize_href e) (List.map_filter item_href (item # items))
              = map Inr us \<and> entries = map (\<lambda>u. \<lparr>url = u, imprint = imp\<rparr>) us"
          then obtain us where m: "map (normalize_href e) (List.map_filter item_href (item # items))
              = map Inr us" and en: "entries = map (\<lambda>u. \<lparr>url = u, imprint = imp\<rparr>) us" by blast
          from m Some Inr have "Inr u # map (normalize_href e) (List.map_filter item_href items)
              = map Inr us" by (simp add: List.map_filter_simps)
          then obtain ws where us: "us = u # ws"
            and ws: "map (normalize_href e) (List.map_filter item_href items) = map Inr ws"
            by (cases us) auto
          from ws vs have "map Inr ws = (map Inr vs :: (uncaught + string) list)" by simp
          then have "ws = vs" by (simp add: inj_map_eq_map)
          with us en b have "entries = \<lparr>url = u, imprint = imp\<rparr> # books" by simp
          with l show "extract_items e imp (item # items) = Inr entries" by simp
        qed
      qed
    qed
  qed
qed

text \<open>The function raises when \<open>urljoin\<close> raises on one of the links.\<close>

lemma extract_items_Inl:
  "extract_items e imp items = Inl x \<longleftrightarrow>
     x = ValueError \<and> (\<exists>h\<in>set (List.map_filter item_href items). normalize_href e h = Inl ValueError)"
proof (induction items)
  case Nil
  show ?case by (simp add: List.map_filter_simps)
next
  case (Cons item items)
  show ?case
  proof (cases "item_href item")
    case None
    then show ?thesis unfolding extract_items_Cons by (simp add: List.map_filter_simps Cons)
  next
    case (Some href)
    show ?thesis
    proof (cases "normalize_href e href")
      case (Inl y)
      with normalize_href_raises [of e href y] have y: "normalize_href e href = Inl ValueError"
        by simp
      with Some show ?thesis
        unfolding extract_items_Cons by (auto simp add: List.map_filter_simps)
    next
      case (Inr u)
      with Some Cons show ?thesis
        unfolding extract_items_Cons
        by (cases "extract_items e imp items") (auto simp add: List.map_filter_simps)
    qed
  qed
qed

lemma sub_query_no_question: "CHR ''?'' \<notin> set p \<Longrightarrow> sub_query (p @ r) = p @ sub_query r"
  by (induction p) auto

lemma sub_query_no_line_feed:
  "line_feed \<notin> set u \<Longrightarrow> sub_query u = takeWhile (\<lambda>c. c \<noteq> CHR ''?'') u"
proof (induction u)
  case Nil
  show ?case by simp
next
  case (Cons c cs)
  then have "dropWhile (\<lambda>x. x \<noteq> line_feed) cs = []" by auto
  with Cons show ?case by simp
qed

lemma takeWhile_no_question: "CHR ''?'' \<notin> set (takeWhile (\<lambda>c. c \<noteq> CHR ''?'') u)"
  by (induction u) auto

lemma scheme_char_not_question: "scheme_char c \<Longrightarrow> c \<noteq> CHR ''?''"
  by (auto simp: scheme_char_def is_alpha_def py_isdigit_def)

lemma startswith_append: "startswith s p \<Longrightarrow> s = p @ drop (length p) s"
proof -
  assume "startswith s p"
  then have "take (length p) s = p" by (simp add: startswith_def)
  moreover have "s = take (length p) s @ drop (length p) s" by simp
  ultimately show ?thesis by simp
qed

text \<open>The part of a URL before its first colon, and what follows the colon.\<close>

lemma absolute_url_split:
  "absolute_url u \<longleftrightarrow>
     (\<exists>p r. u = p @ CHR '':'' # r \<and> CHR '':'' \<notin> set p
        \<and> filter (\<lambda>c. \<not> tab_or_newline c) (dropWhile c0_or_space p) \<noteq> []
        \<and> is_alpha (hd (filter (\<lambda>c. \<not> tab_or_newline c) (dropWhile c0_or_space p)))
        \<and> list_all scheme_char (filter (\<lambda>c. \<not> tab_or_newline c) (dropWhile c0_or_space p)))"
proof
  assume h: "absolute_url u"
  let ?p = "takeWhile (\<lambda>c. c \<noteq> CHR '':'') u"
  from h have lt: "length ?p < length u" by (simp add: absolute_url_def)
  have "dropWhile (\<lambda>c. c \<noteq> CHR '':'') u \<noteq> []"
  proof
    assume "dropWhile (\<lambda>c. c \<noteq> CHR '':'') u = []"
    then have "?p = u" by (simp add: takeWhile_eq_all_conv)
    with lt show False by simp
  qed
  then obtain x r where d: "dropWhile (\<lambda>c. c \<noteq> CHR '':'') u = x # r"
    by (cases "dropWhile (\<lambda>c. c \<noteq> CHR '':'') u") auto
  from hd_dropWhile [of "\<lambda>c. c \<noteq> CHR '':''" u] d have "x = CHR '':''" by simp
  with d have d: "dropWhile (\<lambda>c. c \<noteq> CHR '':'') u = CHR '':'' # r" by simp
  have "u = ?p @ dropWhile (\<lambda>c. c \<noteq> CHR '':'') u" by simp
  with d have u: "u = ?p @ CHR '':'' # r" by simp
  have nc: "CHR '':'' \<notin> set ?p" by (auto dest: set_takeWhileD)
  from h have "filter (\<lambda>c. \<not> tab_or_newline c) (dropWhile c0_or_space ?p) \<noteq> []
        \<and> is_alpha (hd (filter (\<lambda>c. \<not> tab_or_newline c) (dropWhile c0_or_space ?p)))
        \<and> list_all scheme_char (filter (\<lambda>c. \<not> tab_or_newline c) (dropWhile c0_or_space ?p))"
    by (simp add: absolute_url_def scheme_of_def)
  with u nc show "\<exists>p r. u = p @ CHR '':'' # r \<and> CHR '':'' \<notin> set p
        \<and> filter (\<lambda>c. \<not> tab_or_newline c) (dropWhile c0_or_space p) \<noteq> []
        \<and> is_alpha (hd (filter (\<lambda>c. \<not> tab_or_newline c) (dropWhile c0_or_space p)))
        \<and> list_all scheme_char (filter (\<lambda>c. \<not> tab_or_newline c) (dropWhile c0_or_space p))"
    by blast
next
  assume "\<exists>p r. u = p @ CHR '':'' # r \<and> CHR '':'' \<notin> set p
        \<and> filter (\<lambda>c. \<not> tab_or_newline c) (dropWhile c0_or_space p) \<noteq> []
        \<and> is_alpha (hd (filter (\<lambda>c. \<not> tab_or_newline c) (dropWhile c0_or_space p)))
        \<and> list_all scheme_char (filter (\<lambda>c. \<not> tab_or_newline c) (dropWhile c0_or_space p))"
  then obtain p r where u: "u = p @ CHR '':'' # r" and nc: "CHR '':'' \<notin> set p"
    and s: "filter (\<lambda>c. \<not> tab_or_newline c) (dropWhile c0_or_space p) \<noteq> []
        \<and> is_alpha (hd (filter (\<lambda>c. \<not> tab_or_newline c) (dropWhile c0_or_space p)))
        \<and> list_all scheme_char (filter (\<lambda>c. \<not> tab_or_newline c) (dropWhile c0_or_space p))"
    by blast
  from nc have "\<forall>x\<in>set p. x \<noteq> CHR '':''" by auto
  then have "takeWhile (\<lambda>c. c \<noteq> CHR '':'') u = p"
    unfolding u by (simp add: takeWhile_append2)
  with u s show "absolute_url u" by (simp add: absolute_url_def scheme_of_def)
qed

lemma scheme_part_no_question:
  assumes "list_all scheme_char (filter (\<lambda>c. \<not> tab_or_newline c) (dropWhile c0_or_space p))"
  shows "CHR ''?'' \<notin> set p"
proof
  assume q: "CHR ''?'' \<in> set p"
  have nq: "\<not> c0_or_space CHR ''?''" by (simp add: c0_or_space_def)
  have "p = takeWhile c0_or_space p @ dropWhile c0_or_space p" by simp
  with q have "CHR ''?'' \<in> set (takeWhile c0_or_space p) \<or> CHR ''?'' \<in> set (dropWhile c0_or_space p)"
    by (metis Un_iff set_append)
  with nq have "CHR ''?'' \<in> set (dropWhile c0_or_space p)"
    by (auto dest: set_takeWhileD)
  then have "CHR ''?'' \<in> set (filter (\<lambda>c. \<not> tab_or_newline c) (dropWhile c0_or_space p))"
    by (simp add: tab_or_newline_def)
  with assms have "scheme_char CHR ''?''" by (simp add: list_all_iff)
  then show False using scheme_char_not_question by blast
qed

lemma absolute_url_sub_query: "absolute_url u \<Longrightarrow> absolute_url (sub_query u)"
proof -
  assume "absolute_url u"
  then obtain p r where u: "u = p @ CHR '':'' # r" and nc: "CHR '':'' \<notin> set p"
    and ne: "filter (\<lambda>c. \<not> tab_or_newline c) (dropWhile c0_or_space p) \<noteq> []"
    and al: "is_alpha (hd (filter (\<lambda>c. \<not> tab_or_newline c) (dropWhile c0_or_space p)))"
    and sc: "list_all scheme_char (filter (\<lambda>c. \<not> tab_or_newline c) (dropWhile c0_or_space p))"
    unfolding absolute_url_split by blast
  from scheme_part_no_question [OF sc] have "CHR ''?'' \<notin> set (p @ [CHR '':''])" by simp
  from sub_query_no_question [OF this, of r]
  have "sub_query u = p @ CHR '':'' # sub_query r" by (simp add: u)
  with nc ne al sc show ?thesis unfolding absolute_url_split by blast
qed

lemma absolute_url_https: "startswith u ''https://'' \<Longrightarrow> absolute_url u"
proof -
  assume "startswith u ''https://''"
  from startswith_append [OF this] have "u = ''https'' @ CHR '':'' # (''//'' @ drop (length ''https://'') u)" by simp
  moreover have "CHR '':'' \<notin> set ''https''
        \<and> filter (\<lambda>c. \<not> tab_or_newline c) (dropWhile c0_or_space ''https'') \<noteq> []
        \<and> is_alpha (hd (filter (\<lambda>c. \<not> tab_or_newline c) (dropWhile c0_or_space ''https'')))
        \<and> list_all scheme_char (filter (\<lambda>c. \<not> tab_or_newline c) (dropWhile c0_or_space ''https''))"
    by (simp add: c0_or_space_def tab_or_newline_def is_alpha_def scheme_char_def)
  ultimately show ?thesis unfolding absolute_url_split by blast
qed

lemma normalize_href_absolute:
  assumes "urljoin_contract e" and "href \<noteq> []"
    and "normalize_href e href = Inr u"
    and "\<not> startswith href ''http'' \<or> absolute_url href"
  shows "absolute_url u"
proof (cases "startswith href ''http''")
  case True
  with assms(3) have u: "u = sub_query href" by (simp add: normalize_href_def)
  from True assms(4) have "absolute_url href" by simp
  then show ?thesis unfolding u by (rule absolute_url_sub_query)
next
  case False
  with assms(3) obtain joined where j: "urljoin e BASE_URL href = Some joined"
    and u: "u = sub_query joined"
    by (auto simp add: normalize_href_def py_urljoin_def split: option.splits)
  from assms(1,2) j have "startswith joined ''https://'' \<or> (joined = href \<and> absolute_url href)"
    unfolding urljoin_contract_def by (auto split: option.splits)
  then have "absolute_url joined" using absolute_url_https by blast
  then show ?thesis unfolding u by (rule absolute_url_sub_query)
qed

lemma item_href_not_empty: "item_href item = Some h \<Longrightarrow> h \<noteq> []"
  by (auto simp add: item_href_def split: option.splits prod.splits if_splits)

lemma page_hrefs_not_empty: "h \<in> set (page_hrefs sp) \<Longrightarrow> h \<noteq> []"
  by (auto simp add: page_hrefs_def List.map_filter_def item_href_not_empty)

lemma normalize_href_Inl:
  "normalize_href e h = Inl ValueError \<longleftrightarrow> \<not> startswith h ''http'' \<and> urljoin e BASE_URL h = None"
  by (simp add: normalize_href_def py_urljoin_def split: option.splits)

lemma entries_absolute:
  assumes "urljoin_contract e"
    and "extract_urls_from_page e sp imp = Inr entries"
    and "list_all (\<lambda>h. \<not> startswith h ''http'' \<or> absolute_url h) (page_hrefs sp)"
  shows "list_all (\<lambda>en. absolute_url (url en) \<and> imprint en = imp) entries"
proof -
  from assms(2) obtain us where m: "map (normalize_href e) (page_hrefs sp) = map Inr us"
    and en: "entries = map (\<lambda>u. \<lparr>url = u, imprint = imp\<rparr>) us"
    unfolding extract_urls_from_page_def page_hrefs_def extract_items_Inr by blast
  have "absolute_url u" if "u \<in> set us" for u
  proof -
    from that have "Inr u \<in> set (map (normalize_href e) (page_hrefs sp))"
      unfolding m by simp
    then obtain h where h: "h \<in> set (page_hrefs sp)" and n: "normalize_href e h = Inr u"
      by auto
    from h assms(3) have "\<not> startswith h ''http'' \<or> absolute_url h"
      by (simp add: list_all_iff)
    from normalize_href_absolute [OF assms(1) page_hrefs_not_empty [OF h] n this]
    show ?thesis .
  qed
  then show ?thesis unfolding en by (simp add: list_all_iff)
qed

text \<open>
  C5, as amended: \<open>_extract_urls_from_page\<close> returns exactly when \<open>urljoin\<close> raises on none of
  the links it is called with; it then gives one entry for every listing item with a link
  that can be resolved (a first \<open>h3.title a\<close> element with an \<open>href\<close> that is not empty), in
  the order of the page, with the imprint, and an item without such a link is left out. An
  \<open>href\<close> that does not start with \<open>http\<close> is resolved against the base URL with \<open>urljoin\<close>,
  and the URL of its entry is absolute; an \<open>href\<close> that starts with \<open>http\<close> is kept as it is,
  so the URL of its entry is absolute when the \<open>href\<close> is. From the resulting URL, when it has
  no line feed in it, the question mark and everything after it are removed. So every entry
  of a page has an absolute URL, unless the page has a relative link that starts with the
  letters \<open>http\<close>. \<open>urljoin\<close> is taken to do what the library does: raise, or build a URL on
  the scheme of the base, or return a link that has a scheme of its own as it is.
\<close>

theorem url_normalization:
  assumes "urljoin_contract e"
  shows "(extract_urls_from_page e sp imp = Inr entries \<longleftrightarrow>
            (\<exists>us. map (normalize_href e) (page_hrefs sp) = map Inr us
                  \<and> entries = map (\<lambda>u. \<lparr>url = u, imprint = imp\<rparr>) us))
     \<and> (extract_urls_from_page e sp imp = Inl x \<longleftrightarrow>
            x = ValueError
            \<and> (\<exists>h\<in>set (page_hrefs sp). \<not> startswith h ''http'' \<and> urljoin e BASE_URL h = None))
     \<and> (\<not> startswith href ''http'' \<longrightarrow>
            normalize_href e href
              = (case urljoin e BASE_URL href of
                   None \<Rightarrow> Inl ValueError
                 | Some joined \<Rightarrow> Inr (sub_query joined)))
     \<and> (startswith href ''http'' \<longrightarrow> normalize_href e href = Inr (sub_query href))
     \<and> (line_feed \<notin> set v \<longrightarrow>
            sub_query v = takeWhile (\<lambda>c. c \<noteq> CHR ''?'') v \<and> CHR ''?'' \<notin> set (sub_query v))
     \<and> (href \<noteq> [] \<and> normalize_href e href = Inr u
          \<and> (\<not> startswith href ''http'' \<or> absolute_url href) \<longrightarrow> absolute_url u)
     \<and> (extract_urls_from_page e sp imp = Inr entries
          \<and> list_all (\<lambda>h. \<not> startswith h ''http'' \<or> absolute_url h) (page_hrefs sp) \<longrightarrow>
            list_all (\<lambda>en. absolute_url (url en) \<and> imprint en = imp) entries)"
proof (intro conjI impI)
  show "extract_urls_from_page e sp imp = Inr entries \<longleftrightarrow>
            (\<exists>us. map (normalize_href e) (page_hrefs sp) = map Inr us
                  \<and> entries = map (\<lambda>u. \<lparr>url = u, imprint = imp\<rparr>) us)"
    unfolding extract_urls_from_page_def page_hrefs_def by (rule extract_items_Inr)
  show "extract_urls_from_page e sp imp = Inl x \<longleftrightarrow>
            x = ValueError
            \<and> (\<exists>h\<in>set (page_hrefs sp). \<not> startswith h ''http'' \<and> urljoin e BASE_URL h = None)"
    unfolding extract_urls_from_page_def page_hrefs_def extract_items_Inl normalize_href_Inl ..
next
  assume "\<not> startswith href ''http''"
  then show "normalize_href e href
              = (case urljoin e BASE_URL href of
                   None \<Rightarrow> Inl ValueError
                 | Some joined \<Rightarrow> Inr (sub_query joined))"
    by (simp add: normalize_href_def py_urljoin_def split: option.splits)
next
  assume "startswith href ''http''"
  then show "normalize_href e href = Inr (sub_query href)" by (simp add: normalize_href_def)
next
  assume l: "line_feed \<notin> set v"
  then show "sub_query v = takeWhile (\<lambda>c. c \<noteq> CHR ''?'') v" by (rule sub_query_no_line_feed)
  from l show "CHR ''?'' \<notin> set (sub_query v)"
    unfolding sub_query_no_line_feed [OF l] using takeWhile_no_question [of v] by simp
next
  assume h: "href \<noteq> [] \<and> normalize_href e href = Inr u
          \<and> (\<not> startswith href ''http'' \<or> absolute_url href)"
  then have h1: "href \<noteq> []" and h2: "normalize_href e href = Inr u"
    and h3: "\<not> startswith href ''http'' \<or> absolute_url href" by blast+
  show "absolute_url u" by (rule normalize_href_absolute [OF assms h1 h2 h3])
next
  assume h: "extract_urls_from_page e sp imp = Inr entries
          \<and> list_all (\<lambda>h. \<not> startswith h ''http'' \<or> absolute_url h) (page_hrefs sp)"
  then have h1: "extract_urls_from_page e sp imp = Inr entries"
    and h2: "list_all (\<lambda>h. \<not> startswith h ''http'' \<or> absolute_url h) (page_hrefs sp)" by blast+
  show "list_all (\<lambda>en. absolute_url (url en) \<and> imprint en = imp) entries"
    by (rule entries_absolute [OF assms h1 h2])
qed

lemma ex_contract: "urljoin_contract ex_env"
  by (simp add: urljoin_contract_def ex_env_def ex_urljoin_def BASE_URL_def startswith_def)

lemma ex_urls_a0':
  "extract_urls_from_page ex_env ex_page_a0 ''a'' = Inr (take 2 ex_entries)
   \<and> list_all (\<lambda>h. \<not> startswith h ''http'' \<or> absolute_url h) (page_hrefs ex_page_a0)"
  by code_simp

lemma ex_href_relative:
  "\<not> startswith ''/a/buch-1.html?lid=1'' ''http''"
  by code_simp

lemma ex_href_joined:
  "(case urljoin ex_env BASE_URL ''/a/buch-1.html?lid=1'' of
      None \<Rightarrow> Inl ValueError
    | Some joined \<Rightarrow> Inr (sub_query joined))
   = Inr ''https://www.matthes-seitz-berlin.de/a/buch-1.html''"
  by code_simp

lemma ex_href_absolute:
  "startswith ''https://www.matthes-seitz-berlin.de/a/buch-2.html?lid=2'' ''http''"
  by code_simp

lemma ex_href_query:
  "sub_query ''https://www.matthes-seitz-berlin.de/a/buch-2.html?lid=2''
     = ''https://www.matthes-seitz-berlin.de/a/buch-2.html''
   \<and> line_feed \<notin> set ''https://www.matthes-seitz-berlin.de/a/buch-2.html?lid=2''
   \<and> takeWhile (\<lambda>c. c \<noteq> CHR ''?'') ''https://www.matthes-seitz-berlin.de/a/buch-2.html?lid=2''
     = ''https://www.matthes-seitz-berlin.de/a/buch-2.html''"
  by code_simp

lemma ex_href_hyp:
  "''/a/buch-1.html?lid=1'' \<noteq> []
   \<and> normalize_href ex_env ''/a/buch-1.html?lid=1''
       = Inr ''https://www.matthes-seitz-berlin.de/a/buch-1.html''
   \<and> (\<not> startswith ''/a/buch-1.html?lid=1'' ''http'' \<or> absolute_url ''/a/buch-1.html?lid=1'')"
  by code_simp

lemma ex_href_raises:
  "\<exists>h\<in>set (page_hrefs [ex_item ''/a/buch-1.html'', ex_item ''//[x'']).
      \<not> startswith h ''http'' \<and> urljoin ex_env BASE_URL h = None"
  by code_simp

theorem url_normalization_witness:
  "urljoin_contract ex_env
   \<and> extract_urls_from_page ex_env ex_page_a0 ''a'' = Inr (take 2 ex_entries)
   \<and> list_all (\<lambda>h. \<not> startswith h ''http'' \<or> absolute_url h) (page_hrefs ex_page_a0)
   \<and> list_all (\<lambda>en. absolute_url (url en) \<and> imprint en = ''a'') (take 2 ex_entries)
   \<and> \<not> startswith ''/a/buch-1.html?lid=1'' ''http''
   \<and> normalize_href ex_env ''/a/buch-1.html?lid=1''
        = Inr ''https://www.matthes-seitz-berlin.de/a/buch-1.html''
   \<and> absolute_url ''https://www.matthes-seitz-berlin.de/a/buch-1.html''
   \<and> startswith ''https://www.matthes-seitz-berlin.de/a/buch-2.html?lid=2'' ''http''
   \<and> normalize_href ex_env ''https://www.matthes-seitz-berlin.de/a/buch-2.html?lid=2''
        = Inr ''https://www.matthes-seitz-berlin.de/a/buch-2.html''
   \<and> line_feed \<notin> set ''https://www.matthes-seitz-berlin.de/a/buch-2.html?lid=2''
   \<and> CHR ''?'' \<notin> set (sub_query ''https://www.matthes-seitz-berlin.de/a/buch-2.html?lid=2'')
   \<and> extract_urls_from_page ex_env [ex_item ''/a/buch-1.html'', ex_item ''//[x''] ''a''
        = Inl ValueError"
proof -
  note a = url_normalization [OF ex_contract, where sp = ex_page_a0 and imp = "''a''"
      and entries = "take 2 ex_entries" and href = "''/a/buch-1.html?lid=1''"
      and u = "''https://www.matthes-seitz-berlin.de/a/buch-1.html''"
      and v = "''https://www.matthes-seitz-berlin.de/a/buch-2.html?lid=2''"]
  note b = url_normalization [OF ex_contract,
      where href = "''https://www.matthes-seitz-berlin.de/a/buch-2.html?lid=2''"]
  note c = url_normalization [OF ex_contract,
      where sp = "[ex_item ''/a/buch-1.html'', ex_item ''//[x'']" and imp = "''a''"
        and x = ValueError]
  note a2 = a [THEN conjunct2, THEN conjunct2]
  note a4 = a2 [THEN conjunct2, THEN conjunct2]
  note a5 = a4 [THEN conjunct2]
  note a6 = a5 [THEN conjunct2]
  note e1 = ex_urls_a0' [THEN conjunct1] and e2 = ex_urls_a0' [THEN conjunct2]
  note q1 = ex_href_query [THEN conjunct1]
    and q2 = ex_href_query [THEN conjunct2, THEN conjunct1]
  note r1 = a6 [THEN mp, OF ex_urls_a0']
  have r2: "normalize_href ex_env ''/a/buch-1.html?lid=1''
        = Inr ''https://www.matthes-seitz-berlin.de/a/buch-1.html''"
    using a2 [THEN conjunct1, THEN mp, OF ex_href_relative] unfolding ex_href_joined .
  note r3 = a5 [THEN conjunct1, THEN mp, OF ex_href_hyp]
  have r4: "normalize_href ex_env ''https://www.matthes-seitz-berlin.de/a/buch-2.html?lid=2''
        = Inr ''https://www.matthes-seitz-berlin.de/a/buch-2.html''"
    using b [THEN conjunct2, THEN conjunct2, THEN conjunct2, THEN conjunct1, THEN mp,
        OF ex_href_absolute] unfolding q1 .
  note r5 = a4 [THEN conjunct1, THEN mp, OF q2, THEN conjunct2]
  have r6: "extract_urls_from_page ex_env [ex_item ''/a/buch-1.html'', ex_item ''//[x''] ''a''
        = Inl ValueError"
    using c [THEN conjunct2, THEN conjunct1] ex_href_raises by blast
  show ?thesis
    by (intro conjI ex_contract e1 e2 r1 ex_href_relative r2 r3 ex_href_absolute r4 q2 r5 r6)
qed

theorem url_normalization_counterexample:
  "extract_urls_from_page ex_env [ex_item ''http-buch.html?lid=1''] ''a''
     = Inr [\<lparr>url = ''http-buch.html'', imprint = ''a''\<rparr>]
   \<and> \<not> absolute_url ''http-buch.html''
   \<and> extract_urls_from_page ex_env [ex_item ''/a/buch-1.html'', ex_item ''//[x''] ''a''
       = Inl ValueError
   \<and> extract_urls_from_page ex_env
        [ex_item (''https://www.matthes-seitz-berlin.de/a?lid=1'' @ [line_feed] @ ''x'')] ''a''
       = Inr [\<lparr>url = ''https://www.matthes-seitz-berlin.de/a?lid=1'' @ [line_feed] @ ''x'',
               imprint = ''a''\<rparr>]"
  by code_simp


section \<open>The limit\<close>

text \<open>
  C2: the limit is not always respected. \<open>if limit and ...\<close> and \<open>if limit:\<close> test whether
  the limit is true, so with a limit of 0 \<open>collect_urls\<close> returns what it returns without a
  limit: in the small catalog all four URLs, where \<open>min(0, 4)\<close> is 0. And the limit is checked
  after the first page of an imprint and before each further page, but not after the last
  page of an imprint: with a limit of 2, imprint \<open>d\<close> has its two URLs when its second page is
  read, and the first page of imprint \<open>c\<close> is requested all the same before the list is
  returned.
\<close>

theorem limit_not_respected:
  "collect_urls ex_env (Some [''a'', ''b'', ''c'']) None [] = Returned (ex_entries, ex_collect_trace)
   \<and> collect_urls ex_env (Some [''a'', ''b'', ''c'']) (Some 0) []
       = Returned (ex_entries, ex_collect_trace)
   \<and> length ex_entries = 4
   \<and> collect_imprint ex_env (Some 2) ''d'' ([], [])
       = Proceed
           ([\<lparr>url = ''https://www.matthes-seitz-berlin.de/a/buch-1.html'', imprint = ''d''\<rparr>,
             \<lparr>url = ''https://www.matthes-seitz-berlin.de/a/buch-3.html'', imprint = ''d''\<rparr>],
            [Get ''https://www.matthes-seitz-berlin.de/d/lieferbar.html'', Sleep 1000,
             Get ''https://www.matthes-seitz-berlin.de/d/lieferbar.html?p=1''])
   \<and> collect_urls ex_env (Some [''d'', ''c'']) (Some 2) []
       = Returned
           ([\<lparr>url = ''https://www.matthes-seitz-berlin.de/a/buch-1.html'', imprint = ''d''\<rparr>,
             \<lparr>url = ''https://www.matthes-seitz-berlin.de/a/buch-3.html'', imprint = ''d''\<rparr>],
            [Get ''https://www.matthes-seitz-berlin.de/d/lieferbar.html'', Sleep 1000,
             Get ''https://www.matthes-seitz-berlin.de/d/lieferbar.html?p=1'',
             Get ''https://www.matthes-seitz-berlin.de/c/lieferbar.html''])"
  by code_simp

section \<open>The ISBN\<close>

text \<open>
  C4: the \<open>isbn\<close> field is not always the visible code. The hidden span is removed, but
  \<open>get_text(strip=True)\<close> joins the strings that are left without a separator, and the pattern
  \<open>978[\d-]{10,}\<close> takes every digit and hyphen that follows. The number block of the fifth
  detail page holds the valid code \<open>978-3-95757-123-4\<close>, the hidden span, and the string
  \<open>2. Auflage\<close>: the field is \<open>978-3-95757-123-42\<close>, with fourteen digits.
\<close>

theorem isbn_overrun:
  "html_parser ex_env ''d5'' = Some ex_detail_5
   \<and> map_option (\<lambda>el. strings_nodes (snd (snd el))) (select_one [number_c] ex_detail_5)
     = Some [''978-3-95757-123-4'', ''9783957571234'', ''2. Auflage'']
   \<and> valid_isbn13 ''978-3-95757-123-4''
   \<and> parse_detail_page ex_env ''d5'' ''u'' ''a'' = Inr (Some ex_book_5)
   \<and> field ex_book_5 ''isbn'' = Some (PyStr ''978-3-95757-123-42'')
   \<and> ''978-3-95757-123-42'' \<noteq> ''978-3-95757-123-4''
   \<and> length (filter py_isdigit ''978-3-95757-123-42'') = 14"
  by code_simp

end
